theory Spec2Isabelle
  imports Complex_Main
begin

section \<open>Python values and exceptions\<close>

text \<open>
  The lock screen is a Python program. Integers are unbounded (\<open>int\<close>), strings are
  character lists, and every exception the modelled code can raise is a value.
  \<open>TypeError\<close> carries its message, because \<open>main\<close> prints it.
\<close>

datatype py_error =
  TypeError string | IndexError | ValueError string | AttributeError string

fun str_error :: "py_error \<Rightarrow> string" where
  "str_error (TypeError m) = m"
| "str_error IndexError = ''list index out of range''"
| "str_error (ValueError m) = m"
| "str_error (AttributeError m) = m"

text \<open>\<open>xs[i]\<close>: a negative index counts from the end, an index out of range raises.\<close>

definition getitem :: "'a list \<Rightarrow> int \<Rightarrow> py_error + 'a" where
  "getitem xs i =
     (if 0 \<le> i \<and> i < int (length xs) then Inr (xs ! nat i)
      else if i < 0 \<and> 0 \<le> int (length xs) + i then Inr (xs ! nat (int (length xs) + i))
      else Inl IndexError)"

text \<open>\<open>xs.index(v)\<close>: the first position of \<open>v\<close>, \<open>ValueError\<close> when it is absent.\<close>

fun list_index :: "string list \<Rightarrow> string \<Rightarrow> py_error + int" where
  "list_index [] v = Inl (ValueError ([CHR 0x27] @ v @ [CHR 0x27] @ '' is not in list''))"
| "list_index (x # xs) v =
     (if x = v then Inr 0
      else (case list_index xs v of Inl e \<Rightarrow> Inl e | Inr i \<Rightarrow> Inr (i + 1)))"

text \<open>The curses key codes the handlers compare with (ncurses values).\<close>

definition KEY_LEFT :: int where "KEY_LEFT = 260"
definition KEY_RIGHT :: int where "KEY_RIGHT = 261"
definition KEY_BACKSPACE :: int where "KEY_BACKSPACE = 263"

section \<open>Module constants\<close>

text \<open>
  The module-level constants of \<open>testcode.py\<close> that the controller reads. They are fixed
  when the module is loaded, from the configuration file and the installed programs, so
  the model takes them as one read-only record. \<open>UNLOCK_COMMANDS\<close> is the dictionary
  after its falsy values were filtered out, in insertion order. \<open>frames_in\<close> and
  \<open>frames_out\<close> are the values of \<open>int(ANIM_DURATION_IN * 50)\<close> and
  \<open>int(ANIM_DURATION_OUT * 50)\<close>: the products are floating-point computations, only
  their integer parts enter the control flow. \<open>verify_password\<close> is the external
  verifier. \<open>join_calls_stop\<close> belongs to the interpreter, not to the module: it tells
  whether \<open>Thread.join\<close> calls \<open>self._stop()\<close> once it finds the thread ended, as
  CPython's \<open>threading\<close> module does up to version 3.12.
\<close>

record env =
  ANIM_ENABLED :: bool
  SHAKE_AMPLITUDE :: int
  ENABLE_FACE :: bool
  ENABLE_FINGERPRINT :: bool
  DEFAULT_SESSION :: string
  USERNAME :: string
  UNLOCK_COMMANDS :: "(string \<times> string) list"
  frames_in :: int
  frames_out :: int
  verify_password :: "string \<Rightarrow> bool"
  join_calls_stop :: bool

section \<open>The terminal\<close>

text \<open>
  \<open>stdscr\<close> is handed to every drawing routine. It is modelled as the log of what was
  presented on it: one entry per animation frame (its index and the frame count, from
  which the source computes offset, visibility and attribute in floating point), per
  redraw of a panel, and per cursor switch.
\<close>

datatype tty_op =
    SlideFrame nat nat
  | BounceFrame nat nat
  | PasswordPanel
  | MainScreen
  | CursSet int

section \<open>Animation engine\<close>

text \<open>
  The frame loop shared by \<open>anim_slide\<close> and \<open>anim_bounce_in\<close>:
  \<open>for i in range(frames + 1): if unlocked_event.is_set(): return; ...render...\<close>.
  The event is written by other threads, so what the check of iteration \<open>i\<close> reads is
  an input: \<open>is_set i\<close>.
\<close>

fun frame_loop :: "(nat \<Rightarrow> tty_op) \<Rightarrow> (nat \<Rightarrow> bool) \<Rightarrow> nat list \<Rightarrow> tty_op list" where
  "frame_loop render is_set [] = []"
| "frame_loop render is_set (i # rest) =
     (if is_set i then [] else render i # frame_loop render is_set rest)"

definition anim_slide :: "bool \<Rightarrow> (nat \<Rightarrow> bool) \<Rightarrow> int \<Rightarrow> string \<Rightarrow> tty_op list" where
  "anim_slide anim_enabled is_set duration_fps mode =
     (if \<not> anim_enabled then []
      else let frames = nat (max 1 duration_fps) in
        if mode = ''slide-up-out''
        then frame_loop (\<lambda>i. SlideFrame i frames) is_set [0 ..< frames + 1]
        else [])"

definition anim_bounce_in :: "bool \<Rightarrow> (nat \<Rightarrow> bool) \<Rightarrow> int \<Rightarrow> tty_op list" where
  "anim_bounce_in anim_enabled is_set duration_fps =
     (if \<not> anim_enabled then []
      else let frames = nat (max 1 duration_fps) in
        frame_loop (\<lambda>i. BounceFrame i frames) is_set [0 ..< frames + 1])"

definition play_anim :: "bool \<Rightarrow> (nat \<Rightarrow> bool) \<Rightarrow> bool \<Rightarrow> int \<Rightarrow> tty_op list" where
  "play_anim anim_enabled is_set entering duration_fps =
     (if \<not> anim_enabled then []
      else if \<not> entering then anim_slide anim_enabled is_set duration_fps ''slide-up-out''
      else anim_bounce_in anim_enabled is_set duration_fps)"

text \<open>
  \<open>shake_panel(stdscr, draw_fn, cycles=10, amplitude=2, fps=60, unlocked_event=None)\<close>.
  \<open>-amplitude // 2\<close> is floor division of the negated amplitude.
\<close>

definition shake_pattern :: "int \<Rightarrow> int list" where
  "shake_pattern amplitude =
     [0, amplitude, - amplitude, amplitude div 2, (- amplitude) div 2, 0]"

fun shake_loop ::
  "(int \<Rightarrow> int \<Rightarrow> tty_op) \<Rightarrow> int list \<Rightarrow> (nat \<Rightarrow> bool) option \<Rightarrow> nat list \<Rightarrow> tty_op list" where
  "shake_loop draw_fn pattern unlocked_event [] = []"
| "shake_loop draw_fn pattern unlocked_event (i # rest) =
     (if (case unlocked_event of None \<Rightarrow> False | Some is_set \<Rightarrow> is_set i) then []
      else draw_fn (pattern ! (i mod length pattern)) 0
             # shake_loop draw_fn pattern unlocked_event rest)"

definition shake_panel ::
  "bool \<Rightarrow> (int \<Rightarrow> int \<Rightarrow> tty_op) \<Rightarrow> int \<Rightarrow> int \<Rightarrow> (nat \<Rightarrow> bool) option \<Rightarrow> tty_op list" where
  "shake_panel anim_enabled draw_fn cycles amplitude unlocked_event =
     (if \<not> anim_enabled then [draw_fn 0 0]
      else shake_loop draw_fn (shake_pattern amplitude) unlocked_event [0 ..< nat cycles])"

text \<open>
  A call of \<open>shake_panel\<close> with two positional and some keyword arguments, as Python
  binds it: \<open>stdscr\<close> and \<open>draw_fn\<close> are taken by position, a keyword that names none of
  the four remaining parameters raises \<open>TypeError\<close> before the body runs, and a
  parameter no keyword names keeps its default.
\<close>

datatype kwarg = KwInt int | KwEvent "nat \<Rightarrow> bool"

definition shake_panel_keywords :: "string list" where
  "shake_panel_keywords = [''cycles'', ''amplitude'', ''fps'', ''unlocked_event'']"

definition call_shake_panel ::
  "bool \<Rightarrow> (int \<Rightarrow> int \<Rightarrow> tty_op) \<Rightarrow> (string \<times> kwarg) list \<Rightarrow> py_error + tty_op list" where
  "call_shake_panel anim_enabled draw_fn kwargs =
     (case filter (\<lambda>k. k \<notin> set shake_panel_keywords) (map fst kwargs) of
        k # _ \<Rightarrow> Inl (TypeError
          (''shake_panel() got an unexpected keyword argument '' @ [CHR 0x27] @ k @ [CHR 0x27]))
      | [] \<Rightarrow> Inr (shake_panel anim_enabled draw_fn
          (case map_of kwargs ''cycles'' of Some (KwInt c) \<Rightarrow> c | _ \<Rightarrow> 10)
          (case map_of kwargs ''amplitude'' of Some (KwInt a) \<Rightarrow> a | _ \<Rightarrow> 2)
          (case map_of kwargs ''unlocked_event'' of Some (KwEvent e) \<Rightarrow> Some e | _ \<Rightarrow> None)))"

section \<open>Lock screen controller\<close>

text \<open>
  The controller owns the two worker threads. What it can observe of a thread is
  whether it was started and whether it has ended.
\<close>

datatype thread_state = NotStarted | Alive | Ended

record lock_state =
  unlocked_event :: bool
  desktop_choices :: "string list"
  desktop_index :: int
  password_mode :: bool
  password_buffer :: string
  message :: string
  stdscr :: "tty_op list"
  face_worker :: thread_state
  fprint_worker :: thread_state

text \<open>
  \<open>TTYSafeLock.__init__\<close>; the terminal starts with nothing drawn, and the workers
  are created later, by \<open>start_workers\<close>.
\<close>

definition TTYSafeLock_init :: "env \<Rightarrow> py_error + lock_state" where
  "TTYSafeLock_init E =
     (let choices = map fst (UNLOCK_COMMANDS E) in
      case (if DEFAULT_SESSION E \<in> set choices then list_index choices (DEFAULT_SESSION E)
            else Inr 0) of
        Inl e \<Rightarrow> Inl e
      | Inr idx \<Rightarrow> Inr \<lparr> unlocked_event = False, desktop_choices = choices,
          desktop_index = idx, password_mode = False, password_buffer = [],
          message = [], stdscr = [], face_worker = NotStarted,
          fprint_worker = NotStarted \<rparr>)"

text \<open>
  \<open>_on_auth_success(self, method, identity): self.unlocked_event.set()\<close>. The event is
  a \<open>threading.Event\<close>: a flag with no payload.
\<close>

definition on_auth_success :: "lock_state \<Rightarrow> string \<Rightarrow> string \<Rightarrow> lock_state" where
  "on_auth_success s method identity = s\<lparr> unlocked_event := True \<rparr>"

text \<open>
  The handlers run on the main thread. Inside one handler call the animations read the
  event as the state holds it; writes by the workers are separate steps
  (\<open>WorkerCalls\<close> below).
\<close>

definition handle_main_input :: "env \<Rightarrow> lock_state \<Rightarrow> int \<Rightarrow> lock_state" where
  "handle_main_input E s ch =
     (if ch = 32 then
        s\<lparr> password_mode := True, password_buffer := [], message := [],
           stdscr := stdscr s
             @ play_anim (ANIM_ENABLED E) (\<lambda>i. unlocked_event s) False (frames_out E)
             @ [CursSet 1] \<rparr>
      else if ch = KEY_LEFT then
        s\<lparr> desktop_index :=
             (if desktop_choices s \<noteq> []
              then (desktop_index s - 1) mod int (length (desktop_choices s)) else 0) \<rparr>
      else if ch = KEY_RIGHT then
        s\<lparr> desktop_index :=
             (if desktop_choices s \<noteq> []
              then (desktop_index s + 1) mod int (length (desktop_choices s)) else 0) \<rparr>
      else s)"

text \<open>
  The rejected-password branch calls \<open>shake_panel\<close> with the keywords \<open>a\<close> and \<open>e\<close>;
  the drawing callback ignores the offsets it is given. An exception leaves the state
  as it was when it was raised.
\<close>

definition handle_password_input ::
  "env \<Rightarrow> lock_state \<Rightarrow> int \<Rightarrow> (py_error \<times> lock_state) + lock_state" where
  "handle_password_input E s ch =
     (if ch = 27 then
        Inr (s\<lparr> password_mode := False, password_buffer := [], message := [],
                stdscr := stdscr s @ [CursSet 0]
                  @ play_anim (ANIM_ENABLED E) (\<lambda>i. unlocked_event s) True (frames_in E) \<rparr>)
      else if ch = 10 \<or> ch = 13 then
        (if verify_password E (password_buffer s)
         then Inr (on_auth_success s ''password'' (USERNAME E))
         else
           (let s1 = s\<lparr> message := ''Incorrect password'' \<rparr> in
            case call_shake_panel (ANIM_ENABLED E) (\<lambda>dx dy. PasswordPanel)
                   [(''a'', KwInt (SHAKE_AMPLITUDE E)),
                    (''e'', KwEvent (\<lambda>i. unlocked_event s1))] of
              Inl err \<Rightarrow> Inl (err, s1)
            | Inr drawn \<Rightarrow>
                Inr (s1\<lparr> stdscr := stdscr s1 @ drawn, password_buffer := [] \<rparr>)))
      else if ch = KEY_BACKSPACE \<or> ch = 127 \<or> ch = 8 then
        Inr (s\<lparr> password_buffer := butlast (password_buffer s) \<rparr>)
      else if 32 \<le> ch \<and> ch < 256 then
        Inr (s\<lparr> password_buffer := password_buffer s @ [char_of ch] \<rparr>)
      else Inr s)"

definition handle_input ::
  "env \<Rightarrow> lock_state \<Rightarrow> int \<Rightarrow> (py_error \<times> lock_state) + lock_state" where
  "handle_input E s ch =
     (if password_mode s then handle_password_input E s ch
      else Inr (handle_main_input E s ch))"

section \<open>Face worker\<close>

text \<open>
  What one iteration of \<open>FaceWorker.run\<close> reads from outside: whether the stop event is
  set at the loop test, whether \<open>cap.read()\<close> delivered a frame, and the encodings
  found in it. The reference encodings and \<open>compare_faces\<close> (with the tolerance) are
  parameters. The worker's effects are the calls it makes.
\<close>

record 'e face_iter =
  stop_is_set :: bool
  ret :: bool
  encs :: "'e list"

datatype worker_op = PopupShow string | OnSuccess string string | CapRelease

fun face_loop ::
  "'e list \<Rightarrow> ('e list \<Rightarrow> 'e \<Rightarrow> bool list) \<Rightarrow> string \<Rightarrow> bool \<Rightarrow> 'e face_iter list
     \<Rightarrow> worker_op list" where
  "face_loop encodings compare_faces user shown [] = []"
| "face_loop encodings compare_faces user shown (it # rest) =
     (if stop_is_set it then [CapRelease]
      else if \<not> ret it then face_loop encodings compare_faces user shown rest
      else if encodings \<noteq> [] then
        (case encs it of
           [] \<Rightarrow> face_loop encodings compare_faces user shown rest
         | e # _ \<Rightarrow>
             if True \<in> set (compare_faces encodings e)
             then [OnSuccess ''face'' user, CapRelease]
             else face_loop encodings compare_faces user shown rest)
      else if \<not> shown then
        PopupShow ''No known faces configured''
          # face_loop encodings compare_faces user True rest
      else face_loop encodings compare_faces user shown rest)"

definition FaceWorker_run ::
  "env \<Rightarrow> bool \<Rightarrow> 'e list \<Rightarrow> ('e list \<Rightarrow> 'e \<Rightarrow> bool list) \<Rightarrow> 'e face_iter list
     \<Rightarrow> worker_op list" where
  "FaceWorker_run E cap_is_opened encodings compare_faces its =
     (if \<not> ENABLE_FACE E then []
      else if \<not> cap_is_opened then []
      else face_loop encodings compare_faces (USERNAME E) False its)"

section \<open>Fingerprint worker\<close>




section \<open>The render loop and the hand-off to the session launcher\<close>

record io =
  stdout :: "string list"
  stderr :: "string list"
  popen :: "string list"

text \<open>
  \<open>launch_and_exit(choice_key, stdscr)\<close> always leaves through \<open>sys.exit\<close>: the result
  is the exit code and what was printed and started. An empty command is falsy, as a
  missing one is.
\<close>

definition launch_and_exit :: "env \<Rightarrow> string \<Rightarrow> int \<times> io" where
  "launch_and_exit E choice_key =
     (case map_of (UNLOCK_COMMANDS E) choice_key of
        Some (c # cmd) \<Rightarrow>
          (0, \<lparr> stdout = [''Authenticated. Launching: '' @ choice_key @ ''...''],
                stderr = [], popen = [c # cmd] \<rparr>)
      | _ \<Rightarrow>
          (1, \<lparr> stdout = [],
                stderr = [''Error: Command for '' @ [CHR 0x27] @ choice_key @ [CHR 0x27]
                            @ '' not found.''],
                popen = [] \<rparr>))"

text \<open>
  How \<open>run\<close> ends: \<open>sys.exit(code)\<close>, an exception that leaves it, a normal return,
  or, when the observed inputs are used up with the signal still unset, the loop is
  still running.
\<close>

datatype run_result =
    SystemExit int io
  | Exception py_error lock_state
  | Return lock_state
  | Pending lock_state

text \<open>
  One entry per thing that happens while \<open>run\<close> executes: \<open>getch\<close> returns a key code
  (\<open>-1\<close> for none), \<open>getch\<close> is interrupted from the keyboard, a worker thread makes one
  of its calls, or a worker thread's \<open>run\<close> returns without a success (the factor is
  disabled, the camera did not open, or the stop request was seen).
\<close>

datatype worker = Face | Fingerprint

datatype loop_event =
    Getch int
  | KeyboardInterrupt
  | WorkerCalls worker worker_op
  | WorkerReturns worker

definition start_workers :: "lock_state \<Rightarrow> lock_state" where
  "start_workers s = s\<lparr> face_worker := Alive, fprint_worker := Alive \<rparr>"

definition worker_returns :: "lock_state \<Rightarrow> worker \<Rightarrow> lock_state" where
  "worker_returns s w =
     (case w of Face \<Rightarrow> s\<lparr> face_worker := Ended \<rparr>
              | Fingerprint \<Rightarrow> s\<lparr> fprint_worker := Ended \<rparr>)"

text \<open>
  The only call of a worker that reaches the controller is the success callback; the
  notifier and the camera are not part of it. In both workers the callback is followed
  at once by \<open>return\<close>, so the step that delivers it also ends the thread.
\<close>

definition worker_call :: "lock_state \<Rightarrow> worker \<Rightarrow> worker_op \<Rightarrow> lock_state" where
  "worker_call s w op =
     (case op of
        OnSuccess method identity \<Rightarrow> worker_returns (on_auth_success s method identity) w
      | _ \<Rightarrow> s)"

text \<open>
  \<open>stop_workers\<close>: both stop events are set, then both threads are joined with a
  timeout of one second. \<open>FingerprintWorker.__init__\<close> stores its stop event in
  \<open>self._stop\<close>, the name of the method \<open>Thread.join\<close> calls when it finds the thread
  ended; that call then raises \<open>TypeError\<close>. The face worker keeps its event in
  \<open>_stop_event\<close>, so its join returns. The fingerprint thread is found ended when it
  had ended before, or ends while the controller waits: \<open>rest\<close> is what happens during
  the wait.
\<close>

definition stop_workers :: "env \<Rightarrow> lock_state \<Rightarrow> loop_event list \<Rightarrow> py_error option" where
  "stop_workers E s rest =
     (if face_worker s = NotStarted then
        Some (AttributeError
          ([CHR 0x27] @ ''TTYSafeLock'' @ [CHR 0x27] @ '' object has no attribute ''
             @ [CHR 0x27] @ ''face_worker'' @ [CHR 0x27]))
      else if fprint_worker s = NotStarted then
        Some (AttributeError
          ([CHR 0x27] @ ''TTYSafeLock'' @ [CHR 0x27] @ '' object has no attribute ''
             @ [CHR 0x27] @ ''fprint_worker'' @ [CHR 0x27]))
      else if join_calls_stop E
              \<and> (fprint_worker s = Ended \<or> WorkerReturns Fingerprint \<in> set rest) then
        Some (TypeError ([CHR 0x27] @ ''Event'' @ [CHR 0x27] @ '' object is not callable''))
      else None)"

text \<open>The statements of \<open>run\<close> after the loop.\<close>

definition run_unlocking :: "env \<Rightarrow> lock_state \<Rightarrow> loop_event list \<Rightarrow> run_result" where
  "run_unlocking E s rest =
     (if unlocked_event s then
        (case stop_workers E s rest of
           Some err \<Rightarrow> Exception err s
         | None \<Rightarrow>
             (if desktop_choices s \<noteq> [] then
                (case getitem (desktop_choices s) (desktop_index s) of
                   Inl err \<Rightarrow> Exception err s
                 | Inr choice_key \<Rightarrow>
                     (case launch_and_exit E choice_key of
                        (code, out) \<Rightarrow> SystemExit code out))
              else SystemExit 0
                     \<lparr> stdout = [], stderr = [''Auth OK, but no sessions found.''],
                       popen = [] \<rparr>))
      else Return s)"

fun run_loop :: "env \<Rightarrow> lock_state \<Rightarrow> loop_event list \<Rightarrow> run_result" where
  "run_loop E s [] = (if unlocked_event s then run_unlocking E s [] else Pending s)"
| "run_loop E s (ev # rest) =
     (if unlocked_event s then run_unlocking E s (ev # rest)
      else (case ev of
          WorkerCalls w op \<Rightarrow> run_loop E (worker_call s w op) rest
        | WorkerReturns w \<Rightarrow> run_loop E (worker_returns s w) rest
        | KeyboardInterrupt \<Rightarrow>
            run_unlocking E
              (s\<lparr> stdscr := stdscr s @ [if password_mode s then PasswordPanel else MainScreen] \<rparr>)
              rest
        | Getch ch \<Rightarrow>
            (let s1 = s\<lparr> stdscr := stdscr s
                         @ [if password_mode s then PasswordPanel else MainScreen] \<rparr> in
             if ch = - 1 then run_loop E s1 rest
             else (case handle_input E s1 ch of
                 Inl (err, s2) \<Rightarrow> Exception err s2
               | Inr s2 \<Rightarrow> run_loop E s2 rest))))"

text \<open>\<open>run\<close>: the terminal is set up, the workers are started, the entry animation
  plays, and the loop begins.\<close>

definition run :: "env \<Rightarrow> lock_state \<Rightarrow> loop_event list \<Rightarrow> run_result" where
  "run E s evs =
     run_loop E
       (start_workers s
          \<lparr> stdscr := stdscr s @ [CursSet 0]
              @ play_anim (ANIM_ENABLED E) (\<lambda>i. unlocked_event s) True (frames_in E) \<rparr>)
       evs"


text \<open>Decimal printing, for \<open>f"Exited with code {e.code}"\<close>.\<close>

fun str_nat :: "nat \<Rightarrow> string" where
  "str_nat n =
     (if n < 10 then [char_of (48 + n)]
      else str_nat (n div 10) @ [char_of (48 + n mod 10)])"

definition str_int :: "int \<Rightarrow> string" where
  "str_int i = (if i < 0 then ''-'' @ str_nat (nat (- i)) else str_nat (nat i))"

text \<open>
  \<open>main\<close>: the process's exit status (\<open>None\<close> while the loop is still running) and its
  output. The first \<open>sys.exit(1)\<close> is outside the \<open>try\<close>; a \<open>SystemExit\<close> or an exception
  raised under \<open>curses.wrapper\<close> is caught, reported, and \<open>main\<close> returns.
\<close>

record process = io +
  status :: "int option"

definition report_exception :: "py_error \<Rightarrow> process" where
  "report_exception err =
     \<lparr> stdout = [], stderr = [''An unexpected error occurred: '' @ str_error err],
       popen = [], status = Some 0 \<rparr>"

definition main :: "env \<Rightarrow> loop_event list \<Rightarrow> process" where
  "main E evs =
     (if UNLOCK_COMMANDS E = [] then
        \<lparr> stdout = [], stderr = [''Error: No launchable desktop sessions found.''],
          popen = [], status = Some 1 \<rparr>
      else
        (case TTYSafeLock_init E of
           Inl err \<Rightarrow> report_exception err
         | Inr s \<Rightarrow>
             (case run E s evs of
                SystemExit code out \<Rightarrow>
                  \<lparr> stdout = stdout out,
                    stderr = stderr out
                      @ (if code \<noteq> 0 then [''Exited with code '' @ str_int code] else []),
                    popen = popen out, status = Some 0 \<rparr>
              | Exception err _ \<Rightarrow> report_exception err
              | Return _ \<Rightarrow> \<lparr> stdout = [], stderr = [], popen = [], status = Some 0 \<rparr>
              | Pending _ \<Rightarrow> \<lparr> stdout = [], stderr = [], popen = [], status = None \<rparr>)))"

section \<open>Operations of the core on the controller\<close>

text \<open>
  Everything that acts on the controller once it is built: a key handed to
  \<open>handle_input\<close>, a success callback from a worker thread or from the password
  branch, and a redraw by the render loop. \<open>core_steps\<close> runs a sequence of them and
  stops at the first exception, with the state as the exception left it.
\<close>

datatype core_op = KeyPress int | AuthSuccess string string | Redraw

fun core_step :: "env \<Rightarrow> lock_state \<Rightarrow> core_op \<Rightarrow> (py_error \<times> lock_state) + lock_state" where
  "core_step E s (KeyPress ch) = handle_input E s ch"
| "core_step E s (AuthSuccess method identity) = Inr (on_auth_success s method identity)"
| "core_step E s Redraw =
     Inr (s\<lparr> stdscr := stdscr s @ [if password_mode s then PasswordPanel else MainScreen] \<rparr>)"

fun core_steps :: "env \<Rightarrow> lock_state \<Rightarrow> core_op list \<Rightarrow> lock_state" where
  "core_steps E s [] = s"
| "core_steps E s (op # ops) =
     (case core_step E s op of
        Inl (err, s') \<Rightarrow> s'
      | Inr s' \<Rightarrow> core_steps E s' ops)"

section \<open>Popup notifier\<close>

text \<open>
  \<open>time.time()\<close> returns a double, and the elapsed time is the difference the program
  computes. The model leaves the arithmetic of time stamps open: any type with a
  subtraction, an order and the literals the source compares with.
\<close>

datatype attr = A_DIM | A_NORMAL

record 't popup_manager =
  popup_message :: "string option"
  start_time :: "'t option"

definition PopupManager_init :: "'t popup_manager" where
  "PopupManager_init = \<lparr> popup_message = None, start_time = None \<rparr>"

definition PopupManager_show :: "'t popup_manager \<Rightarrow> string \<Rightarrow> 't \<Rightarrow> 't popup_manager" where
  "PopupManager_show p msg now = p\<lparr> popup_message := Some msg, start_time := Some now \<rparr>"

text \<open>
  \<open>render\<close> reads the clock twice (\<open>now1\<close> for the expiry test, \<open>now2\<close> for the
  attribute) and the window size \<open>(h, w)\<close>. It returns the notifier and the \<open>addstr\<close>
  call it makes, if any: \<open>(y, x, text, attribute)\<close>; a \<open>curses.error\<close> from that call
  is swallowed. An empty message is falsy.
\<close>

definition PopupManager_render ::
  "('t :: {minus, ord, numeral, inverse}) popup_manager \<Rightarrow> 't \<Rightarrow> 't \<Rightarrow> int \<times> int
     \<Rightarrow> py_error + ('t popup_manager \<times> (int \<times> int \<times> string \<times> attr) option)" where
  "PopupManager_render p now1 now2 hw =
     (case popup_message p of
        None \<Rightarrow> Inr (p, None)
      | Some [] \<Rightarrow> Inr (p, None)
      | Some (c # cs) \<Rightarrow>
          (case start_time p of
             None \<Rightarrow> Inl (TypeError ''unsupported operand type(s) for -'')
           | Some t0 \<Rightarrow>
               if now1 - t0 > 1 then Inr (p\<lparr> popup_message := None \<rparr>, None)
               else
                 (let elapsed = now2 - t0;
                      a = (if elapsed < 0.2 \<or> elapsed > 0.7 then A_DIM else A_NORMAL);
                      x = snd hw div 2 - int (length (c # cs)) div 2;
                      y = fst hw - 3
                  in Inr (p, Some (y, x, c # cs, a)))))"

section \<open>Easing functions\<close>

text \<open>
  Python's \<open>float\<close> is the C \<open>double\<close>. The finite doubles are the numbers
  \<open>m * 2 ^ (e - 1074)\<close> with \<open>|m| < 2 ^ 53\<close> and \<open>0 \<le> e \<le> 2045\<close>.
\<close>

definition min_exp :: nat where
  "min_exp = 1074"

definition doubles :: "real set" where
  "doubles =
     {real_of_int m * 2 ^ e / 2 ^ min_exp | m e. \<bar>m\<bar> < 2 ^ 53 \<and> e \<le> min_exp + 971}"

text \<open>
  Each arithmetic operation on floats returns a double nearest to the exact result. The
  easing functions and the claims about them do not depend on how a tie is broken, so
  the rounding \<open>rd\<close> is a parameter with that one property, on the range the functions
  stay in.
\<close>

definition rounds_to_nearest :: "(real \<Rightarrow> real) \<Rightarrow> bool" where
  "rounds_to_nearest rd \<longleftrightarrow>
     (\<forall>x. \<bar>x\<bar> \<le> 8 \<longrightarrow> rd x \<in> doubles \<and> (\<forall>d\<in>doubles. \<bar>x - rd x\<bar> \<le> \<bar>x - d\<bar>))"

text \<open>
  \<open>(1 - t) ** 3\<close> on a float calls the C library's \<open>pow(x, 3.0)\<close>, which is not part of
  the repository: \<open>cube\<close> is a parameter. What is used of it is that it is exact at 0
  and 1 and monotone between them.
\<close>

definition libm_cube :: "(real \<Rightarrow> real) \<Rightarrow> bool" where
  "libm_cube cube \<longleftrightarrow>
     cube 0 = 0 \<and> cube 1 = 1 \<and> (\<forall>x y. 0 \<le> x \<and> x \<le> y \<and> y \<le> 1 \<longrightarrow> cube x \<le> cube y)"

text \<open>\<open>_ease_out_cubic\<close> and \<open>_ease_out_bounce\<close>, one rounding per operation.\<close>

definition ease_out_cubic :: "(real \<Rightarrow> real) \<Rightarrow> (real \<Rightarrow> real) \<Rightarrow> real \<Rightarrow> real" where
  "ease_out_cubic rd cube t0 =
     (let t = max 0 (min 1 t0) in rd (1 - cube (rd (1 - t))))"

definition ease_out_bounce :: "(real \<Rightarrow> real) \<Rightarrow> real \<Rightarrow> real" where
  "ease_out_bounce rd t0 =
     (let t = max 0 (min 1 t0); n1 = 7.5625; d1 = 2.75 in
      if t < rd (1 / d1) then rd (rd (n1 * t) * t)
      else if t < rd (2 / d1) then
        (let t = rd (t - rd (1.5 / d1)) in rd (rd (rd (n1 * t) * t) + 0.75))
      else if t < rd (2.5 / d1) then
        (let t = rd (t - rd (2.25 / d1)) in rd (rd (rd (n1 * t) * t) + 0.9375))
      else
        (let t = rd (t - rd (2.625 / d1)) in rd (rd (rd (n1 * t) * t) + 0.984375)))"

text \<open>A rounding with the property above: a nearest element of the finite set.\<close>

definition nearest_double :: "real \<Rightarrow> real" where
  "nearest_double x = arg_min_on (\<lambda>d. \<bar>x - d\<bar>) doubles"

section \<open>Concrete configurations\<close>

text \<open>
  A configuration with the three sessions of the source's table and \<open>kde\<close> as the
  default, the controller built from it, and the same with no session at all.
\<close>

definition example_env :: env where
  "example_env =
     \<lparr> ANIM_ENABLED = True, SHAKE_AMPLITUDE = 3, ENABLE_FACE = True,
       ENABLE_FINGERPRINT = True, DEFAULT_SESSION = ''kde'', USERNAME = ''alice'',
       UNLOCK_COMMANDS =
         [(''gnome-wayland'', ''dbus-run-session env XDG_SESSION_TYPE=wayland gnome-session''),
          (''gnome-x11'', ''dbus-run-session env XDG_SESSION_TYPE=x11 gnome-session''),
          (''kde'', ''dbus-run-session startkde'')],
       frames_in = 27, frames_out = 30,
       verify_password = (\<lambda>p. p = ''a''), join_calls_stop = True \<rparr>"

definition example_state :: lock_state where
  "example_state =
     \<lparr> unlocked_event = False,
       desktop_choices = [''gnome-wayland'', ''gnome-x11'', ''kde''],
       desktop_index = 2, password_mode = False, password_buffer = [],
       message = [], stdscr = [], face_worker = NotStarted,
       fprint_worker = NotStarted \<rparr>"

definition no_session_env :: env where
  "no_session_env = example_env\<lparr> UNLOCK_COMMANDS := [] \<rparr>"

definition no_session_state :: lock_state where
  "no_session_state =
     \<lparr> unlocked_event = False, desktop_choices = [], desktop_index = 0,
       password_mode = False, password_buffer = [], message = [], stdscr = [],
       face_worker = NotStarted, fprint_worker = NotStarted \<rparr>"

definition password_state :: lock_state where
  "password_state = example_state\<lparr> password_mode := True, password_buffer := ''x'' \<rparr>"

text \<open>
  Iterations of the face worker: one in which \<open>cap.read()\<close> fails and one that delivers
  a frame with a face in it. A notifier that was shown a message at time 10.
\<close>

definition no_frame :: "nat face_iter" where
  "no_frame = \<lparr> stop_is_set = False, ret = False, encs = [] \<rparr>"

definition a_frame :: "nat face_iter" where
  "a_frame = \<lparr> stop_is_set = False, ret = True, encs = [7] \<rparr>"

definition stale_popup :: "real popup_manager" where
  "stale_popup = PopupManager_show PopupManager_init ''No known faces configured'' 10"



section \<open>Controller construction\<close>

lemma list_index_mem:
  "v \<in> set xs \<Longrightarrow> \<exists>i. list_index xs v = Inr i \<and> 0 \<le> i \<and> i < int (length xs) \<and> xs ! nat i = v"
proof (induction xs)
  case Nil
  then show ?case by simp
next
  case (Cons x xs)
  show ?case
  proof (cases "x = v")
    case True
    then show ?thesis by simp
  next
    case False
    with Cons.prems have "v \<in> set xs" by simp
    from Cons.IH [OF this] obtain i where
      i: "list_index xs v = Inr i" "0 \<le> i" "i < int (length xs)" "xs ! nat i = v"
      by blast
    have "nat (i + 1) = Suc (nat i)" using i(2) by simp
    with False i show ?thesis by simp
  qed
qed

lemma init_total:
  "\<exists>s. TTYSafeLock_init E = Inr s \<and> \<not> unlocked_event s \<and>
       desktop_choices s = map fst (UNLOCK_COMMANDS E) \<and>
       (DEFAULT_SESSION E \<in> set (desktop_choices s) \<longrightarrow>
          0 \<le> desktop_index s \<and> desktop_index s < int (length (desktop_choices s)) \<and>
          desktop_choices s ! nat (desktop_index s) = DEFAULT_SESSION E) \<and>
       (DEFAULT_SESSION E \<notin> set (desktop_choices s) \<longrightarrow> desktop_index s = 0)"
proof (cases "DEFAULT_SESSION E \<in> set (map fst (UNLOCK_COMMANDS E))")
  case True
  from list_index_mem [OF True] obtain i where
    i: "list_index (map fst (UNLOCK_COMMANDS E)) (DEFAULT_SESSION E) = Inr i"
       "0 \<le> i" "i < int (length (map fst (UNLOCK_COMMANDS E)))"
       "map fst (UNLOCK_COMMANDS E) ! nat i = DEFAULT_SESSION E"
    by blast
  with True show ?thesis by (simp add: TTYSafeLock_init_def)
next
  case False
  then show ?thesis by (simp add: TTYSafeLock_init_def)
qed

lemma example_init: "TTYSafeLock_init example_env = Inr example_state"
  by (simp add: TTYSafeLock_init_def example_env_def example_state_def)

lemma no_session_init: "TTYSafeLock_init no_session_env = Inr no_session_state"
  by (simp add: TTYSafeLock_init_def no_session_env_def no_session_state_def)

text \<open>
  C10. \<open>TTYSafeLock.__init__\<close> never raises. If the configured default session is one
  of the discovered session keys, the session index starts at a position in range that
  holds that key; for every other configured value it starts at 0. Either way the index
  is in range whenever there is at least one session.
\<close>

theorem C10_initial_session_index:
  "\<exists>s. TTYSafeLock_init E = Inr s \<and>
       desktop_choices s = map fst (UNLOCK_COMMANDS E) \<and>
       (DEFAULT_SESSION E \<in> set (desktop_choices s) \<longrightarrow>
          0 \<le> desktop_index s \<and> desktop_index s < int (length (desktop_choices s)) \<and>
          desktop_choices s ! nat (desktop_index s) = DEFAULT_SESSION E) \<and>
       (DEFAULT_SESSION E \<notin> set (desktop_choices s) \<longrightarrow> desktop_index s = 0) \<and>
       (desktop_choices s \<noteq> [] \<longrightarrow>
          0 \<le> desktop_index s \<and> desktop_index s < int (length (desktop_choices s)))"
proof -
  from init_total [of E] obtain s where
    s: "TTYSafeLock_init E = Inr s"
       "desktop_choices s = map fst (UNLOCK_COMMANDS E)"
       "DEFAULT_SESSION E \<in> set (desktop_choices s) \<longrightarrow>
          0 \<le> desktop_index s \<and> desktop_index s < int (length (desktop_choices s)) \<and>
          desktop_choices s ! nat (desktop_index s) = DEFAULT_SESSION E"
       "DEFAULT_SESSION E \<notin> set (desktop_choices s) \<longrightarrow> desktop_index s = 0"
    by blast
  have "desktop_choices s \<noteq> [] \<longrightarrow>
          0 \<le> desktop_index s \<and> desktop_index s < int (length (desktop_choices s))"
    using s(3,4) by (cases "DEFAULT_SESSION E \<in> set (desktop_choices s)") auto
  with s show ?thesis by blast
qed

theorem C10_initial_session_index_witness:
  "''kde'' \<in> set (map fst (UNLOCK_COMMANDS example_env)) \<and>
   (\<exists>s. TTYSafeLock_init example_env = Inr s \<and> desktop_index s = 2 \<and>
        desktop_choices s ! nat (desktop_index s) = ''kde'' \<and>
        desktop_index s < int (length (desktop_choices s)))"
  using C10_initial_session_index [of example_env]
  by (simp add: example_init) (simp add: example_env_def example_state_def)

section \<open>Session navigation\<close>

lemma call_shake_panel_a_e:
  "call_shake_panel en d [(''a'', x), (''e'', y)] =
     Inl (TypeError (''shake_panel() got an unexpected keyword argument '' @ [CHR 0x27] @ ''a'' @ [CHR 0x27]))"
  by (simp add: call_shake_panel_def shake_panel_keywords_def)

lemma handle_password_input_rejected:
  "\<not> verify_password E (password_buffer s) \<Longrightarrow> ch = 10 \<or> ch = 13 \<Longrightarrow>
   handle_password_input E s ch =
     Inl (TypeError (''shake_panel() got an unexpected keyword argument '' @ [CHR 0x27] @ ''a'' @ [CHR 0x27]),
          s\<lparr> message := ''Incorrect password'' \<rparr>)"
  by (auto simp add: handle_password_input_def call_shake_panel_a_e Let_def)

lemma handle_main_input_keeps:
  "desktop_choices (handle_main_input E s ch) = desktop_choices s \<and>
   unlocked_event (handle_main_input E s ch) = unlocked_event s \<and>
   (desktop_choices s = [] \<longrightarrow> desktop_index s = 0 \<longrightarrow>
      desktop_index (handle_main_input E s ch) = 0)"
  by (simp add: handle_main_input_def)

lemma handle_password_input_keeps:
  assumes "handle_password_input E s ch = Inl (err, s') \<or> handle_password_input E s ch = Inr s'"
  shows "desktop_choices s' = desktop_choices s \<and> desktop_index s' = desktop_index s \<and>
         (unlocked_event s \<longrightarrow> unlocked_event s')"
proof (cases "(ch = 10 \<or> ch = 13) \<and> ch \<noteq> 27 \<and> \<not> verify_password E (password_buffer s)")
  case True
  then show ?thesis
    using assms handle_password_input_rejected [of E s ch] by auto
next
  case False
  then show ?thesis
    using assms
    by (auto simp add: handle_password_input_def on_auth_success_def split: if_splits)
qed

lemma core_step_keeps:
  assumes "core_step E s op = Inl (err, s') \<or> core_step E s op = Inr s'"
  shows "desktop_choices s' = desktop_choices s \<and>
         (unlocked_event s \<longrightarrow> unlocked_event s') \<and>
         ((desktop_choices s = [] \<longrightarrow> desktop_index s = 0) \<longrightarrow>
          (desktop_choices s' = [] \<longrightarrow> desktop_index s' = 0))"
proof (cases op)
  case (KeyPress ch)
  show ?thesis
  proof (cases "password_mode s")
    case True
    with KeyPress assms
    have "handle_password_input E s ch = Inl (err, s') \<or> handle_password_input E s ch = Inr s'"
      by (simp add: handle_input_def)
    from handle_password_input_keeps [OF this] show ?thesis by simp
  next
    case False
    with KeyPress assms have "s' = handle_main_input E s ch"
      by (simp add: handle_input_def)
    with handle_main_input_keeps [of E s ch] show ?thesis by simp
  qed
next
  case (AuthSuccess m i)
  with assms show ?thesis by (auto simp add: on_auth_success_def)
next
  case Redraw
  with assms show ?thesis by auto
qed

lemma core_steps_keeps:
  "desktop_choices (core_steps E s ops) = desktop_choices s \<and>
   (unlocked_event s \<longrightarrow> unlocked_event (core_steps E s ops)) \<and>
   ((desktop_choices s = [] \<longrightarrow> desktop_index s = 0) \<longrightarrow>
    (desktop_choices s = [] \<longrightarrow> desktop_index (core_steps E s ops) = 0))"
proof (induction ops arbitrary: s)
  case Nil
  then show ?case by simp
next
  case (Cons op ops)
  show ?case
  proof (cases "core_step E s op")
    case (Inl p)
    obtain err s' where p: "p = (err, s')" by (cases p)
    with Inl have "core_step E s op = Inl (err, s') \<or> core_step E s op = Inr s'" by simp
    from core_step_keeps [OF this] Inl p show ?thesis by simp
  next
    case (Inr s')
    then have "core_step E s op = Inl (IndexError, s') \<or> core_step E s op = Inr s'" by simp
    from core_step_keeps [OF this] Cons.IH [of s'] Inr show ?thesis by simp
  qed
qed

lemma presses_left:
  assumes "0 \<le> desktop_index s" "desktop_index s < int (length (desktop_choices s))"
  shows "desktop_choices (((\<lambda>s. handle_main_input E s KEY_LEFT) ^^ k) s) = desktop_choices s \<and>
         desktop_index (((\<lambda>s. handle_main_input E s KEY_LEFT) ^^ k) s) =
           (desktop_index s - int k) mod int (length (desktop_choices s))"
proof (induction k)
  case 0
  with assms show ?case by simp
next
  case (Suc k)
  from assms have ne: "desktop_choices s \<noteq> []" by auto
  have "(desktop_index s - int (Suc k)) mod int (length (desktop_choices s)) =
        ((desktop_index s - int k) - 1) mod int (length (desktop_choices s))"
    by (simp add: algebra_simps)
  also have "\<dots> = ((desktop_index s - int k) mod int (length (desktop_choices s)) - 1)
           mod int (length (desktop_choices s))"
    by (simp only: mod_diff_left_eq)
  finally have "(desktop_index s - int (Suc k)) mod int (length (desktop_choices s)) =
        ((desktop_index s - int k) mod int (length (desktop_choices s)) - 1)
           mod int (length (desktop_choices s))" .
  with Suc ne show ?case
    by (simp add: handle_main_input_def KEY_LEFT_def)
qed

lemma presses_right:
  assumes "0 \<le> desktop_index s" "desktop_index s < int (length (desktop_choices s))"
  shows "desktop_choices (((\<lambda>s. handle_main_input E s KEY_RIGHT) ^^ k) s) = desktop_choices s \<and>
         desktop_index (((\<lambda>s. handle_main_input E s KEY_RIGHT) ^^ k) s) =
           (desktop_index s + int k) mod int (length (desktop_choices s))"
proof (induction k)
  case 0
  with assms show ?case by simp
next
  case (Suc k)
  from assms have ne: "desktop_choices s \<noteq> []" by auto
  have "(desktop_index s + int (Suc k)) mod int (length (desktop_choices s)) =
        ((desktop_index s + int k) + 1) mod int (length (desktop_choices s))"
    by (simp add: ac_simps)
  also have "\<dots> = ((desktop_index s + int k) mod int (length (desktop_choices s)) + 1)
           mod int (length (desktop_choices s))"
    by (simp only: mod_add_left_eq)
  finally have "(desktop_index s + int (Suc k)) mod int (length (desktop_choices s)) =
        ((desktop_index s + int k) mod int (length (desktop_choices s)) + 1)
           mod int (length (desktop_choices s))" .
  with Suc ne show ?case
    by (simp add: handle_main_input_def KEY_LEFT_def KEY_RIGHT_def)
qed

text \<open>
  C5. In every state the controller reaches from its construction with an empty
  session list, a left or right key handled by the main screen leaves the session index
  as it is (the handler stores 0, and the index is 0 there). With \<open>N\<close> sessions and an
  index in range, left stores \<open>(index - 1) mod N\<close>, right stores \<open>(index + 1) mod N\<close>, and
  \<open>N\<close> presses of the same key bring the index back to where it started.
\<close>

theorem C5_session_navigation:
  "(TTYSafeLock_init E = Inr s0 \<and> desktop_choices (core_steps E s0 ops) = [] \<longrightarrow>
      desktop_index (handle_main_input E (core_steps E s0 ops) KEY_LEFT) =
        desktop_index (core_steps E s0 ops) \<and>
      desktop_index (handle_main_input E (core_steps E s0 ops) KEY_RIGHT) =
        desktop_index (core_steps E s0 ops)) \<and>
   (0 \<le> desktop_index s \<and> desktop_index s < int (length (desktop_choices s)) \<longrightarrow>
      desktop_index (handle_main_input E s KEY_LEFT) =
        (desktop_index s - 1) mod int (length (desktop_choices s)) \<and>
      desktop_index (handle_main_input E s KEY_RIGHT) =
        (desktop_index s + 1) mod int (length (desktop_choices s)) \<and>
      desktop_index (((\<lambda>s. handle_main_input E s KEY_LEFT) ^^ length (desktop_choices s)) s) =
        desktop_index s \<and>
      desktop_index (((\<lambda>s. handle_main_input E s KEY_RIGHT) ^^ length (desktop_choices s)) s) =
        desktop_index s)"
proof (intro conjI impI)
  assume a: "TTYSafeLock_init E = Inr s0 \<and> desktop_choices (core_steps E s0 ops) = []"
  from init_total [of E] a have s0: "desktop_choices s0 = map fst (UNLOCK_COMMANDS E)"
    "DEFAULT_SESSION E \<notin> set (desktop_choices s0) \<longrightarrow> desktop_index s0 = 0"
    by auto
  from a core_steps_keeps [of E s0 ops] have c0: "desktop_choices s0 = []"
    by simp
  with s0 have "desktop_index s0 = 0" by simp
  with core_steps_keeps [of E s0 ops] c0 have i0: "desktop_index (core_steps E s0 ops) = 0"
    by simp
  with a show "desktop_index (handle_main_input E (core_steps E s0 ops) KEY_LEFT) =
        desktop_index (core_steps E s0 ops)"
    by (simp add: handle_main_input_def KEY_LEFT_def)
  from i0 a show "desktop_index (handle_main_input E (core_steps E s0 ops) KEY_RIGHT) =
        desktop_index (core_steps E s0 ops)"
    by (simp add: handle_main_input_def KEY_LEFT_def KEY_RIGHT_def)
next
  assume v: "0 \<le> desktop_index s \<and> desktop_index s < int (length (desktop_choices s))"
  then have ne: "desktop_choices s \<noteq> []" by auto
  from ne show "desktop_index (handle_main_input E s KEY_LEFT) =
        (desktop_index s - 1) mod int (length (desktop_choices s))"
    by (simp add: handle_main_input_def KEY_LEFT_def)
  from ne show "desktop_index (handle_main_input E s KEY_RIGHT) =
        (desktop_index s + 1) mod int (length (desktop_choices s))"
    by (simp add: handle_main_input_def KEY_LEFT_def KEY_RIGHT_def)
  from v presses_left [where s = s and E = E and k = "length (desktop_choices s)"]
  show "desktop_index (((\<lambda>s. handle_main_input E s KEY_LEFT) ^^ length (desktop_choices s)) s) =
        desktop_index s"
    by simp
  from v presses_right [where s = s and E = E and k = "length (desktop_choices s)"]
  show "desktop_index (((\<lambda>s. handle_main_input E s KEY_RIGHT) ^^ length (desktop_choices s)) s) =
        desktop_index s"
    by simp
qed

theorem C5_session_navigation_witness:
  "TTYSafeLock_init no_session_env = Inr no_session_state \<and>
   desktop_choices (core_steps no_session_env no_session_state [KeyPress KEY_RIGHT]) = [] \<and>
   desktop_index (handle_main_input no_session_env
       (core_steps no_session_env no_session_state [KeyPress KEY_RIGHT]) KEY_LEFT) = 0 \<and>
   0 \<le> desktop_index example_state \<and>
   desktop_index example_state < int (length (desktop_choices example_state)) \<and>
   desktop_index (handle_main_input example_env example_state KEY_LEFT) = 1 \<and>
   desktop_index (handle_main_input example_env example_state KEY_RIGHT) = 0 \<and>
   desktop_index (((\<lambda>s. handle_main_input example_env s KEY_LEFT) ^^ 3) example_state) = 2 \<and>
   desktop_index (((\<lambda>s. handle_main_input example_env s KEY_RIGHT) ^^ 3) example_state) = 2"
  using C5_session_navigation
      [where E = no_session_env and ?s0.0 = no_session_state
         and ops = "[KeyPress KEY_RIGHT]" and s = no_session_state]
    C5_session_navigation
      [where E = example_env and ?s0.0 = example_state and ops = "[]" and s = example_state]
  by (simp add: no_session_init)
     (simp add: no_session_state_def example_state_def handle_input_def
        handle_main_input_def KEY_LEFT_def KEY_RIGHT_def numeral_3_eq_3)

section \<open>The unlock signal\<close>

lemma core_step_event:
  "unlocked_event s \<Longrightarrow> core_step E s op = Inl (err, s') \<or> core_step E s op = Inr s' \<Longrightarrow>
   unlocked_event s'"
  using core_step_keeps [of E s op err s'] by simp

text \<open>
  C3. The controller is built with the unlock signal unset. The success callback sets
  it, and no operation of the core clears it: after any key, callback or redraw, and
  after any sequence of them (also one that ends in an exception), a signal that was set
  is still set, so every later read finds it set.
\<close>

theorem C3_unlock_signal_never_cleared:
  "(\<exists>s0. TTYSafeLock_init E = Inr s0 \<and> \<not> unlocked_event s0) \<and>
   unlocked_event (on_auth_success s method identity) \<and>
   (unlocked_event s \<longrightarrow>
      unlocked_event (core_steps E s ops) \<and>
      (\<forall>op err s'. core_step E s op = Inl (err, s') \<or> core_step E s op = Inr s'
         \<longrightarrow> unlocked_event s'))"
proof (intro conjI impI allI)
  from init_total [of E] show "\<exists>s0. TTYSafeLock_init E = Inr s0 \<and> \<not> unlocked_event s0"
    by blast
  show "unlocked_event (on_auth_success s method identity)"
    by (simp add: on_auth_success_def)
next
  assume "unlocked_event s"
  with core_steps_keeps [of E s ops] show "unlocked_event (core_steps E s ops)" by simp
next
  fix op err s'
  assume "unlocked_event s"
    and "core_step E s op = Inl (err, s') \<or> core_step E s op = Inr s'"
  then show "unlocked_event s'" by (rule core_step_event)
qed

theorem C3_unlock_signal_never_cleared_witness:
  "\<not> unlocked_event example_state \<and>
   unlocked_event (on_auth_success example_state ''face'' ''alice'') \<and>
   unlocked_event (core_steps example_env (on_auth_success example_state ''face'' ''alice'')
     [KeyPress 260, Redraw, KeyPress 32, KeyPress 97, KeyPress 10, AuthSuccess ''fingerprint'' ''alice''])"
  using C3_unlock_signal_never_cleared
    [where E = example_env and s = "on_auth_success example_state ''face'' ''alice''"
       and ops = "[KeyPress 260, Redraw, KeyPress 32, KeyPress 97, KeyPress 10,
                   AuthSuccess ''fingerprint'' ''alice'']"]
  by (simp add: on_auth_success_def) (simp add: example_state_def)

section \<open>Successful unlock\<close>

















text \<open>
  After a fingerprint success the fingerprint thread has ended, so its join raises and
  nothing is launched.
\<close>

lemma fingerprint_unlock_raises:
  "main example_env [WorkerCalls Fingerprint (OnSuccess ''fingerprint'' ''alice'')] =
     \<lparr> stdout = [],
       stderr = [''An unexpected error occurred: '' @ [CHR 0x27] @ ''Event'' @ [CHR 0x27]
                   @ '' object is not callable''],
       popen = [], status = Some 0 \<rparr>"
  by (simp add: main_def report_exception_def example_init run_def start_workers_def
        example_state_def worker_call_def worker_returns_def on_auth_success_def
        run_unlocking_def stop_workers_def)
     (simp add: example_env_def)








section \<open>Rejected password\<close>

lemma password_state_rejected:
  "handle_input example_env password_state 10 =
     Inl (TypeError (''shake_panel() got an unexpected keyword argument '' @ [CHR 0x27] @ ''a'' @ [CHR 0x27]),
          password_state\<lparr> message := ''Incorrect password'' \<rparr>)"
proof -
  have "\<not> verify_password example_env (password_buffer password_state)"
    by (simp add: example_env_def password_state_def example_state_def)
  from handle_password_input_rejected [OF this, of 10] show ?thesis
    by (simp add: handle_input_def password_state_def)
qed

lemma main_rejected_password:
  "main example_env [Getch 32, Getch 10] =
     \<lparr> stdout = [],
       stderr = [''An unexpected error occurred: shake_panel() got an unexpected keyword argument ''
                   @ [CHR 0x27] @ ''a'' @ [CHR 0x27]],
       popen = [], status = Some 0 \<rparr>"
  by (simp add: main_def report_exception_def example_init run_def start_workers_def
        example_state_def handle_input_def handle_main_input_def handle_password_input_def
        call_shake_panel_a_e Let_def)
     (simp add: example_env_def)

text \<open>
  C2 at a rejected password: in the password panel with \<open>x\<close> typed and a verifier that
  accepts only \<open>a\<close>, enter sets the message and then the call of \<open>shake_panel\<close> raises
  \<open>TypeError\<close>. Nothing is drawn, the buffer still holds \<open>x\<close>, and the exception ends the
  render loop: \<open>main\<close> reports it and returns with status 0.
\<close>

theorem C2_rejected_password_raises:
  "\<not> verify_password example_env (password_buffer password_state) \<and>
   handle_input example_env password_state 10 =
     Inl (TypeError (''shake_panel() got an unexpected keyword argument '' @ [CHR 0x27] @ ''a'' @ [CHR 0x27]),
          password_state\<lparr> message := ''Incorrect password'' \<rparr>) \<and>
   password_buffer (password_state\<lparr> message := ''Incorrect password'' \<rparr>) = ''x'' \<and>
   stdscr (password_state\<lparr> message := ''Incorrect password'' \<rparr>) = stdscr password_state \<and>
   main example_env [Getch 32, Getch 10] =
     \<lparr> stdout = [],
       stderr = [''An unexpected error occurred: shake_panel() got an unexpected keyword argument ''
                   @ [CHR 0x27] @ ''a'' @ [CHR 0x27]],
       popen = [], status = Some 0 \<rparr>"
  by (simp add: password_state_rejected main_rejected_password)
     (simp add: example_env_def password_state_def example_state_def)

section \<open>Animations and the unlock signal\<close>

lemma frame_loop_takeWhile:
  "frame_loop render is_set xs = map render (takeWhile (\<lambda>i. \<not> is_set i) xs)"
  by (induction xs) simp_all

lemma set_takeWhile_upt:
  "i \<in> set (takeWhile P [0 ..< m]) \<longleftrightarrow> i < m \<and> (\<forall>j\<le>i. P j)"
proof (induction m)
  case 0
  then show ?case by simp
next
  case (Suc m)
  show ?case
  proof (cases "\<forall>x\<in>set [0 ..< m]. P x")
    case True
    then have "takeWhile P ([0 ..< m] @ [m]) = [0 ..< m] @ takeWhile P [m]"
      by (intro takeWhile_append2) simp
    with True show ?thesis by (auto simp add: le_less less_Suc_eq)
  next
    case False
    then obtain x where x: "x \<in> set [0 ..< m]" "\<not> P x" by blast
    then have "takeWhile P ([0 ..< m] @ [m]) = takeWhile P [0 ..< m]"
      by (rule takeWhile_append1)
    with Suc x show ?thesis by (auto simp add: less_Suc_eq)
  qed
qed

lemma takeWhile_all: "(\<forall>x\<in>set xs. P x) \<Longrightarrow> takeWhile P xs = xs"
  by (induction xs) simp_all

text \<open>
  C7. Both animations test the unlock signal at the top of every iteration, before the
  frame is drawn: frame \<open>i\<close> is drawn exactly when animations are enabled, \<open>i\<close> is at
  most the frame count, and the tests of iterations \<open>0\<close> to \<open>i\<close> all found the signal
  unset. So no frame is drawn from the first test that finds it set, an animation
  started with the signal set draws nothing, and one that never sees it set draws all
  \<open>frames + 1\<close> frames in order.
\<close>

theorem C7_animation_aborts_on_unlock:
  "(SlideFrame i n \<in> set (anim_slide en is_set d mode) \<longleftrightarrow>
      en \<and> mode = ''slide-up-out'' \<and> n = nat (max 1 d) \<and> i \<le> n \<and> (\<forall>j\<le>i. \<not> is_set j)) \<and>
   (BounceFrame i n \<in> set (anim_bounce_in en is_set d) \<longleftrightarrow>
      en \<and> n = nat (max 1 d) \<and> i \<le> n \<and> (\<forall>j\<le>i. \<not> is_set j)) \<and>
   (is_set 0 \<longrightarrow>
      anim_slide en is_set d mode = [] \<and> anim_bounce_in en is_set d = [] \<and>
      play_anim en is_set entering d = []) \<and>
   (en \<and> (\<forall>j \<le> nat (max 1 d). \<not> is_set j) \<longrightarrow>
      anim_slide en is_set d ''slide-up-out'' =
        map (\<lambda>i. SlideFrame i (nat (max 1 d))) [0 ..< nat (max 1 d) + 1] \<and>
      anim_bounce_in en is_set d =
        map (\<lambda>i. BounceFrame i (nat (max 1 d))) [0 ..< nat (max 1 d) + 1])"
proof (intro conjI impI)
  show "SlideFrame i n \<in> set (anim_slide en is_set d mode) \<longleftrightarrow>
      en \<and> mode = ''slide-up-out'' \<and> n = nat (max 1 d) \<and> i \<le> n \<and> (\<forall>j\<le>i. \<not> is_set j)"
    by (auto simp add: anim_slide_def Let_def frame_loop_takeWhile set_takeWhile_upt
          simp del: upt_Suc)
  show "BounceFrame i n \<in> set (anim_bounce_in en is_set d) \<longleftrightarrow>
      en \<and> n = nat (max 1 d) \<and> i \<le> n \<and> (\<forall>j\<le>i. \<not> is_set j)"
    by (auto simp add: anim_bounce_in_def Let_def frame_loop_takeWhile set_takeWhile_upt
          simp del: upt_Suc)
next
  assume z: "is_set 0"
  have u: "[0 ..< nat (max 1 d) + 1] = 0 # [1 ..< nat (max 1 d) + 1]"
    by (simp add: upt_rec)
  from z show s: "anim_slide en is_set d mode = []"
    unfolding anim_slide_def Let_def u by simp
  from z show b: "anim_bounce_in en is_set d = []"
    unfolding anim_bounce_in_def Let_def u by simp
  from z show "play_anim en is_set entering d = []"
    unfolding play_anim_def anim_slide_def anim_bounce_in_def Let_def u by simp
next
  assume a: "en \<and> (\<forall>j \<le> nat (max 1 d). \<not> is_set j)"
  then have t: "takeWhile (\<lambda>i. \<not> is_set i) [0 ..< nat (max 1 d) + 1] = [0 ..< nat (max 1 d) + 1]"
    by (intro takeWhile_all) auto
  from a show "anim_slide en is_set d ''slide-up-out'' =
        map (\<lambda>i. SlideFrame i (nat (max 1 d))) [0 ..< nat (max 1 d) + 1]"
    unfolding anim_slide_def Let_def frame_loop_takeWhile t by simp
  from a show "anim_bounce_in en is_set d =
        map (\<lambda>i. BounceFrame i (nat (max 1 d))) [0 ..< nat (max 1 d) + 1]"
    unfolding anim_bounce_in_def Let_def frame_loop_takeWhile t by simp
qed

lemma slide_unlock_at_3:
  "anim_slide True (\<lambda>i. 3 \<le> i) 5 ''slide-up-out'' =
     [SlideFrame 0 5, SlideFrame 1 5, SlideFrame 2 5]"
  by (simp add: anim_slide_def upt_rec)

theorem C7_animation_aborts_on_unlock_witness:
  "anim_slide True (\<lambda>i. True) 30 ''slide-up-out'' = [] \<and>
   anim_bounce_in True (\<lambda>i. True) 27 = [] \<and>
   anim_slide True (\<lambda>i. 3 \<le> i) 5 ''slide-up-out'' =
     [SlideFrame 0 5, SlideFrame 1 5, SlideFrame 2 5] \<and>
   SlideFrame 3 5 \<notin> set (anim_slide True (\<lambda>i. 3 \<le> i) 5 ''slide-up-out'') \<and>
   anim_bounce_in True (\<lambda>i. False) 2 = [BounceFrame 0 2, BounceFrame 1 2, BounceFrame 2 2]"
  using C7_animation_aborts_on_unlock
      [where en = True and is_set = "\<lambda>i. True" and d = 30 and mode = "''slide-up-out''"]
    C7_animation_aborts_on_unlock
      [where en = True and is_set = "\<lambda>i. True" and d = 27]
    C7_animation_aborts_on_unlock
      [where en = True and is_set = "\<lambda>i. 3 \<le> i" and d = 5 and mode = "''slide-up-out''"
         and i = 3 and n = 5]
    C7_animation_aborts_on_unlock
      [where en = True and is_set = "\<lambda>i. False" and d = 2]
  by (simp add: slide_unlock_at_3) (simp add: upt_rec)

section \<open>Face worker with an empty database\<close>

lemma face_loop_empty_shown:
  "set (face_loop [] compare_faces user True its) \<subseteq> {CapRelease}"
  by (induction its) simp_all

lemma count_list_zero: "x \<notin> set xs \<Longrightarrow> count_list xs x = 0"
  by (induction xs) auto

lemma face_loop_empty_count:
  "count_list (face_loop [] compare_faces user False its)
       (PopupShow ''No known faces configured'') =
     (if \<exists>it \<in> set (takeWhile (\<lambda>it. \<not> stop_is_set it) its). ret it then 1 else 0)"
proof (induction its)
  case Nil
  then show ?case by simp
next
  case (Cons it its)
  have "PopupShow ''No known faces configured''
          \<notin> set (face_loop [] compare_faces user True its)"
    using face_loop_empty_shown [of compare_faces user its] by auto
  then have "count_list (face_loop [] compare_faces user True its)
       (PopupShow ''No known faces configured'') = 0"
    by (rule count_list_zero)
  with Cons show ?case by (cases "stop_is_set it"; cases "ret it") auto
qed

lemma face_loop_empty_ops:
  "set (face_loop [] compare_faces user shown its)
     \<subseteq> {PopupShow ''No known faces configured'', CapRelease}"
proof (induction its arbitrary: shown)
  case Nil
  then show ?case by simp
next
  case (Cons it its)
  from Cons [of True] Cons [of shown] show ?case by auto
qed

text \<open>
  C8 (amended). With an empty reference database, one run of the face worker posts
  the notification at most once: exactly once when the worker is enabled, the camera
  opened and some iteration before the stop request read a frame, and not at all
  otherwise. It makes no other call than that notification and the release of the
  camera; in particular it never calls the success callback.
\<close>

theorem C8_face_worker_empty_database:
  "count_list (FaceWorker_run E cap_is_opened [] compare_faces its)
       (PopupShow ''No known faces configured'') =
     (if ENABLE_FACE E \<and> cap_is_opened \<and>
         (\<exists>it \<in> set (takeWhile (\<lambda>it. \<not> stop_is_set it) its). ret it)
      then 1 else 0) \<and>
   (\<forall>op \<in> set (FaceWorker_run E cap_is_opened [] compare_faces its).
      op = PopupShow ''No known faces configured'' \<or> op = CapRelease) \<and>
   OnSuccess m u \<notin> set (FaceWorker_run E cap_is_opened [] compare_faces its)"
proof (intro conjI)
  show "count_list (FaceWorker_run E cap_is_opened [] compare_faces its)
       (PopupShow ''No known faces configured'') =
     (if ENABLE_FACE E \<and> cap_is_opened \<and>
         (\<exists>it \<in> set (takeWhile (\<lambda>it. \<not> stop_is_set it) its). ret it)
      then 1 else 0)"
    by (simp add: FaceWorker_run_def face_loop_empty_count)
  show ops: "\<forall>op \<in> set (FaceWorker_run E cap_is_opened [] compare_faces its).
      op = PopupShow ''No known faces configured'' \<or> op = CapRelease"
    using face_loop_empty_ops [of compare_faces "USERNAME E" False its]
    by (auto simp add: FaceWorker_run_def)
  from ops show "OnSuccess m u \<notin> set (FaceWorker_run E cap_is_opened [] compare_faces its)"
    by auto
qed

text \<open>
  C8 as stated fails: an enabled worker with an open camera and an empty database whose
  three iterations all fail to read a frame posts no notification.
\<close>

theorem C8_no_notification_without_a_frame:
  "FaceWorker_run example_env True [] (\<lambda>known e. []) [no_frame, no_frame, no_frame] = [] \<and>
   count_list (FaceWorker_run example_env True [] (\<lambda>known e. []) [no_frame, no_frame, no_frame])
     (PopupShow ''No known faces configured'') = 0"
  by (simp add: FaceWorker_run_def example_env_def no_frame_def)

theorem C8_face_worker_empty_database_witness:
  "ENABLE_FACE example_env \<and>
   FaceWorker_run example_env True [] (\<lambda>known e. [True])
       [no_frame, a_frame, a_frame, a_frame, no_frame, a_frame] =
     [PopupShow ''No known faces configured''] \<and>
   count_list (FaceWorker_run example_env True [] (\<lambda>known e. [True])
       [no_frame, a_frame, a_frame, a_frame, no_frame, a_frame])
     (PopupShow ''No known faces configured'') = 1"
  using C8_face_worker_empty_database
      [where E = example_env and cap_is_opened = True and compare_faces = "\<lambda>known e. [True]"
         and its = "[no_frame, a_frame, a_frame, a_frame, no_frame, a_frame]"]
  by (simp add: FaceWorker_run_def example_env_def no_frame_def a_frame_def)

section \<open>Popup expiry\<close>

lemma render_absent:
  "popup_message p = None \<or> popup_message p = Some [] \<Longrightarrow>
   PopupManager_render p now1 now2 hw = Inr (p, None)"
  by (auto simp add: PopupManager_render_def)

text \<open>
  C9. The notifier holds one message and one time stamp. \<open>show\<close> replaces both,
  whatever was there. When the elapsed time \<open>render\<close> computes exceeds 1, \<open>render\<close>
  makes no drawing call and leaves a notifier without a live message, on which every
  later \<open>render\<close>, at any time and window size, draws nothing either: no call clears
  it.
\<close>

theorem C9_popup_single_message_expires:
  fixes p :: "('t :: {minus, ord, numeral, inverse}) popup_manager"
  shows
  "PopupManager_show p msg now = \<lparr> popup_message = Some msg, start_time = Some now \<rparr> \<and>
   PopupManager_show (PopupManager_show p msg0 t) msg now = PopupManager_show p msg now \<and>
   (start_time p = Some t0 \<and> now1 - t0 > 1 \<longrightarrow>
      (\<exists>p'. PopupManager_render p now1 now2 hw = Inr (p', None) \<and>
            (popup_message p' = None \<or> popup_message p' = Some []) \<and>
            start_time p' = start_time p \<and>
            (\<forall>now3 now4 hw'. PopupManager_render p' now3 now4 hw' = Inr (p', None))))"
proof (intro conjI impI)
  show "PopupManager_show p msg now = \<lparr> popup_message = Some msg, start_time = Some now \<rparr>"
    by (simp add: PopupManager_show_def)
  show "PopupManager_show (PopupManager_show p msg0 t) msg now = PopupManager_show p msg now"
    by (simp add: PopupManager_show_def)
next
  assume a: "start_time p = Some t0 \<and> now1 - t0 > 1"
  define p' where "p' = (case popup_message p of Some (c # cs) \<Rightarrow> p\<lparr> popup_message := None \<rparr> | _ \<Rightarrow> p)"
  have absent: "popup_message p' = None \<or> popup_message p' = Some []"
    by (auto simp add: p'_def split: option.splits list.splits)
  have r: "PopupManager_render p now1 now2 hw = Inr (p', None)"
    using a by (auto simp add: PopupManager_render_def p'_def split: option.splits list.splits)
  have st: "start_time p' = start_time p"
    by (auto simp add: p'_def split: option.splits list.splits)
  have "\<forall>now3 now4 hw'. PopupManager_render p' now3 now4 hw' = Inr (p', None)"
    using render_absent [OF absent] by blast
  with r absent st
  show "\<exists>p'. PopupManager_render p now1 now2 hw = Inr (p', None) \<and>
            (popup_message p' = None \<or> popup_message p' = Some []) \<and>
            start_time p' = start_time p \<and>
            (\<forall>now3 now4 hw'. PopupManager_render p' now3 now4 hw' = Inr (p', None))"
    by blast
qed

lemma stale_popup_fields:
  "popup_message stale_popup = Some ''No known faces configured'' \<and>
   start_time stale_popup = Some 10"
  by (simp add: stale_popup_def PopupManager_show_def)

lemma stale_popup_render:
  "PopupManager_render stale_popup 11.5 11.5 (24, 80) =
     Inr (stale_popup\<lparr> popup_message := None \<rparr>, None) \<and>
   PopupManager_render (stale_popup\<lparr> popup_message := None \<rparr>) 10.1 10.1 (24, 80) =
     Inr (stale_popup\<lparr> popup_message := None \<rparr>, None) \<and>
   PopupManager_render stale_popup 10.5 10.5 (24, 80) =
     Inr (stale_popup, Some (21, 28, ''No known faces configured'', A_NORMAL))"
  by (simp add: PopupManager_render_def stale_popup_fields)

theorem C9_popup_single_message_expires_witness:
  "start_time stale_popup = Some 10 \<and> (11.5 :: real) - 10 > 1 \<and>
   popup_message stale_popup = Some ''No known faces configured'' \<and>
   PopupManager_render stale_popup 11.5 11.5 (24, 80) =
     Inr (stale_popup\<lparr> popup_message := None \<rparr>, None) \<and>
   PopupManager_render (stale_popup\<lparr> popup_message := None \<rparr>) 10.1 10.1 (24, 80) =
     Inr (stale_popup\<lparr> popup_message := None \<rparr>, None) \<and>
   PopupManager_render stale_popup 10.5 10.5 (24, 80) =
     Inr (stale_popup, Some (21, 28, ''No known faces configured'', A_NORMAL))"
  using C9_popup_single_message_expires
      [where p = stale_popup and ?t0.0 = 10 and ?now1.0 = "11.5" and ?now2.0 = "11.5"
         and hw = "(24, 80)"]
    stale_popup_fields stale_popup_render
  by simp

section \<open>Easing in floating point\<close>

lemma dyadic_in_doubles:
  assumes "\<bar>k\<bar> < 2 ^ 53" "n \<le> 1074"
  shows "real_of_int k / 2 ^ n \<in> doubles"
proof -
  from assms(2) have n: "n \<le> min_exp" by (simp add: min_exp_def)
  then have "(2 :: real) ^ min_exp = 2 ^ (min_exp - n) * 2 ^ n"
    by (simp flip: power_add)
  then have "real_of_int k / 2 ^ n = real_of_int k * 2 ^ (min_exp - n) / 2 ^ min_exp"
    by simp
  moreover have "min_exp - n \<le> min_exp + 971" by simp
  ultimately show ?thesis
    unfolding doubles_def using assms(1) by blast
qed

lemma finite_doubles: "finite doubles"
proof -
  have "doubles \<subseteq> (\<lambda>(m, e). real_of_int m * 2 ^ e / 2 ^ min_exp)
                      ` ({- (2 ^ 53) <..< 2 ^ 53} \<times> {.. min_exp + 971})"
    unfolding doubles_def by (auto simp add: abs_less_iff image_iff)
  then show ?thesis by (rule finite_subset) simp
qed

lemma zero_in_doubles: "0 \<in> doubles"
  using dyadic_in_doubles [of 0 0] by simp

lemma nearest_double_rounds: "rounds_to_nearest nearest_double"
proof -
  have ne: "doubles \<noteq> {}" using zero_in_doubles by blast
  show ?thesis
    unfolding rounds_to_nearest_def nearest_double_def
  proof (intro allI impI conjI ballI)
    fix x :: real
    show "arg_min_on (\<lambda>d. \<bar>x - d\<bar>) doubles \<in> doubles"
      using arg_min_if_finite(1) [OF finite_doubles ne] .
  next
    fix x d :: real
    assume "d \<in> doubles"
    with arg_min_if_finite(2) [OF finite_doubles ne, of "\<lambda>d. \<bar>x - d\<bar>"]
    show "\<bar>x - arg_min_on (\<lambda>d. \<bar>x - d\<bar>) doubles\<bar> \<le> \<bar>x - d\<bar>"
      by (meson not_le)
  qed
qed

lemma rd_fix:
  assumes "rounds_to_nearest rd" "x \<in> doubles" "\<bar>x\<bar> \<le> 8"
  shows "rd x = x"
proof -
  from assms have "\<bar>x - rd x\<bar> \<le> \<bar>x - x\<bar>"
    unfolding rounds_to_nearest_def by blast
  then show ?thesis by simp
qed

lemma rd_mono:
  assumes R: "rounds_to_nearest rd" and b: "\<bar>x\<bar> \<le> 8" "\<bar>y\<bar> \<le> 8" and le: "x \<le> y"
  shows "rd x \<le> rd y"
proof (rule ccontr)
  assume "\<not> rd x \<le> rd y"
  then have gt: "rd y < rd x" by simp
  from R b have "rd x \<in> doubles" "rd y \<in> doubles"
    unfolding rounds_to_nearest_def by blast+
  with R b have "\<bar>x - rd x\<bar> \<le> \<bar>x - rd y\<bar>" "\<bar>y - rd y\<bar> \<le> \<bar>y - rd x\<bar>"
    unfolding rounds_to_nearest_def by blast+
  moreover from gt have "x \<noteq> y" by auto
  ultimately show False using gt le by linarith
qed

lemma rd_le:
  assumes "rounds_to_nearest rd" "\<bar>x\<bar> \<le> 8" "x \<le> c" "c \<in> doubles" "\<bar>c\<bar> \<le> 8"
  shows "rd x \<le> c"
  using rd_mono [OF assms(1,2,5,3)] rd_fix [OF assms(1,4,5)] by simp

lemma rd_ge:
  assumes "rounds_to_nearest rd" "\<bar>x\<bar> \<le> 8" "c \<le> x" "c \<in> doubles" "\<bar>c\<bar> \<le> 8"
  shows "c \<le> rd x"
  using rd_mono [OF assms(1,5,2,3)] rd_fix [OF assms(1,4,5)] by simp

lemma one_in_doubles: "1 \<in> doubles"
  using dyadic_in_doubles [of 1 0] by simp

lemma rd_unit_interval:
  assumes R: "rounds_to_nearest rd" and "0 \<le> x" "x \<le> 1"
  shows "0 \<le> rd x \<and> rd x \<le> 1"
  using rd_ge [OF R _ assms(2) zero_in_doubles] rd_le [OF R _ assms(3) one_in_doubles] assms
  by simp

lemma cubic_mono:
  assumes R: "rounds_to_nearest rd" and C: "libm_cube cube" and le: "t \<le> t'"
  shows "ease_out_cubic rd cube t \<le> ease_out_cubic rd cube t'"
proof -
  define a where "a = max 0 (min 1 t)"
  define b where "b = max 0 (min 1 t')"
  from le have ab: "0 \<le> a" "a \<le> b" "b \<le> 1" by (auto simp add: a_def b_def)
  have ua: "0 \<le> rd (1 - a) \<and> rd (1 - a) \<le> 1"
    using rd_unit_interval [OF R, of "1 - a"] ab by simp
  have ub: "0 \<le> rd (1 - b) \<and> rd (1 - b) \<le> 1"
    using rd_unit_interval [OF R, of "1 - b"] ab by simp
  have m: "rd (1 - b) \<le> rd (1 - a)"
    using rd_mono [OF R, of "1 - b" "1 - a"] ab by simp
  from C have c0: "cube 0 = 0" and c1: "cube 1 = 1"
    and cm: "\<And>x y. 0 \<le> x \<Longrightarrow> x \<le> y \<Longrightarrow> y \<le> 1 \<Longrightarrow> cube x \<le> cube y"
    unfolding libm_cube_def by blast+
  have pa: "0 \<le> cube (rd (1 - a))" "cube (rd (1 - a)) \<le> 1"
    using cm [of 0 "rd (1 - a)"] cm [of "rd (1 - a)" 1] ua c0 c1 by simp_all
  have pb: "0 \<le> cube (rd (1 - b))" "cube (rd (1 - b)) \<le> 1"
    using cm [of 0 "rd (1 - b)"] cm [of "rd (1 - b)" 1] ub c0 c1 by simp_all
  have "cube (rd (1 - b)) \<le> cube (rd (1 - a))"
    using cm [of "rd (1 - b)" "rd (1 - a)"] m ua ub by simp
  then have "rd (1 - cube (rd (1 - a))) \<le> rd (1 - cube (rd (1 - b)))"
    using rd_mono [OF R, of "1 - cube (rd (1 - a))" "1 - cube (rd (1 - b))"] pa pb by simp
  then show ?thesis
    by (simp add: ease_out_cubic_def a_def b_def)
qed

lemma quad_bounds:
  assumes R: "rounds_to_nearest rd"
    and u: "\<bar>u\<bar> \<le> real_of_int k / 1024" and k: "0 \<le> k" "k \<le> 1024"
  shows "0 \<le> rd (rd (121 / 16 * u) * u) \<and>
         rd (rd (121 / 16 * u) * u) \<le> real_of_int (121 * k * k) / 2 ^ 24"
proof -
  define w where "w = real_of_int k / 1024"
  define B where "B = real_of_int (121 * k) / 2 ^ 14"
  define B2 where "B2 = real_of_int (121 * k * k) / 2 ^ 24"
  from k have w: "0 \<le> w" "w \<le> 1" by (simp_all add: w_def)
  from u have u': "- w \<le> u" "u \<le> w" by (simp_all add: w_def abs_le_iff)
  have Bw: "B = 121 / 16 * w" by (simp add: B_def w_def)
  have B2w: "B2 = B * w" by (simp add: B2_def B_def w_def)
  from k have kk: "k * k \<le> 1024 * 1024" by (intro mult_mono) simp_all
  have Bd: "B \<in> doubles" "- B \<in> doubles"
    using dyadic_in_doubles [of "121 * k" 14] dyadic_in_doubles [of "- (121 * k)" 14] k
    by (simp_all add: B_def)
  have B2d: "B2 \<in> doubles"
    using dyadic_in_doubles [of "121 * k * k" 24] k kk by (simp add: B2_def)
  have Bb: "0 \<le> B" "B \<le> 121 / 16" using w by (simp_all add: Bw)
  have x1: "- B \<le> 121 / 16 * u" "121 / 16 * u \<le> B" using u' by (simp_all add: Bw)
  have r1: "- B \<le> rd (121 / 16 * u)" "rd (121 / 16 * u) \<le> B"
    using rd_ge [OF R _ x1(1) Bd(2)] rd_le [OF R _ x1(2) Bd(1)] x1 Bb by simp_all
  have abs1: "\<bar>rd (121 / 16 * u)\<bar> \<le> B" using r1 by (simp add: abs_le_iff) 
  have absu: "\<bar>u\<bar> \<le> w" using u by (simp add: w_def)
  have "\<bar>rd (121 / 16 * u) * u\<bar> \<le> B * w"
    unfolding abs_mult using abs1 absu Bb w by (intro mult_mono) simp_all
  then have x2u: "rd (121 / 16 * u) * u \<le> B2" by (simp add: B2w abs_le_iff)
  have "B * w \<le> B * 1" using Bb w by (intro mult_left_mono) simp_all
  then have B2b: "0 \<le> B2" "B2 \<le> 121 / 16"
    using Bb w by (simp_all add: B2w)
  have x2l: "0 \<le> rd (121 / 16 * u) * u"
  proof (cases "0 \<le> u")
    case True
    then have "0 \<le> rd (121 / 16 * u)"
      using rd_ge [OF R _ _ zero_in_doubles, of "121 / 16 * u"] x1 Bb by simp
    with True show ?thesis by simp
  next
    case False
    then have "rd (121 / 16 * u) \<le> 0"
      using rd_le [OF R _ _ zero_in_doubles, of "121 / 16 * u"] x1 Bb by simp
    with False show ?thesis by (simp add: mult_nonpos_nonpos)
  qed
  have abs2: "\<bar>rd (121 / 16 * u) * u\<bar> \<le> 8"
    using x2l x2u B2b by simp
  have "0 \<le> rd (rd (121 / 16 * u) * u)"
    using rd_ge [OF R abs2 x2l zero_in_doubles] by simp
  moreover have "rd (rd (121 / 16 * u) * u) \<le> B2"
    using rd_le [OF R abs2 x2u B2d] B2b by simp
  ultimately show ?thesis by (simp add: B2_def)
qed

lemma ease_out_bounce_unfold:
  assumes "t = max 0 (min 1 t0)"
  shows "ease_out_bounce rd t0 =
     (if t < rd (4 / 11) then rd (rd (121 / 16 * t) * t)
      else if t < rd (8 / 11) then
        rd (rd (rd (121 / 16 * rd (t - rd (6 / 11))) * rd (t - rd (6 / 11))) + 3 / 4)
      else if t < rd (10 / 11) then
        rd (rd (rd (121 / 16 * rd (t - rd (9 / 11))) * rd (t - rd (9 / 11))) + 15 / 16)
      else
        rd (rd (rd (121 / 16 * rd (t - rd (21 / 22))) * rd (t - rd (21 / 22))) + 63 / 64))"
  unfolding assms by (simp add: ease_out_bounce_def Let_def)

lemma rd_bracket:
  assumes R: "rounds_to_nearest rd"
    and "real_of_int a / 1024 \<le> x" "x \<le> real_of_int b / 1024"
    and "- 1024 \<le> a" "b \<le> 1024"
  shows "real_of_int a / 1024 \<le> rd x \<and> rd x \<le> real_of_int b / 1024"
proof -
  from assms(2,3) have "real_of_int a / 1024 \<le> real_of_int b / 1024" by linarith
  then have ab: "a \<le> b" by simp
  have da: "real_of_int a / 2 ^ 10 \<in> doubles" "real_of_int b / 2 ^ 10 \<in> doubles"
    using dyadic_in_doubles [of a 10] dyadic_in_doubles [of b 10] assms(4,5) ab by simp_all
  have ra: "- 1 \<le> real_of_int a / 1024" "real_of_int b / 1024 \<le> 1"
    using assms(4,5) by simp_all
  with assms(2,3) have x: "\<bar>x\<bar> \<le> 8" by simp
  have "\<bar>real_of_int a / 1024\<bar> \<le> 8" "\<bar>real_of_int b / 1024\<bar> \<le> 8"
    using ra assms(2,3) by simp_all
  with rd_ge [OF R x assms(2)] rd_le [OF R x assms(3)] da show ?thesis by simp
qed

lemma offset_bounds:
  assumes R: "rounds_to_nearest rd"
    and q: "0 \<le> q" "q \<le> real_of_int j / 2 ^ 24"
    and c: "0 \<le> c" "c + j \<le> 2 ^ 26"
  shows "real_of_int c / 2 ^ 24 \<le> rd (q + real_of_int c / 2 ^ 24) \<and>
         rd (q + real_of_int c / 2 ^ 24) \<le> real_of_int (c + j) / 2 ^ 24"
proof -
  from q have j: "0 \<le> j" by (simp add: zero_le_divide_iff)
  have d: "real_of_int c / 2 ^ 24 \<in> doubles" "real_of_int (c + j) / 2 ^ 24 \<in> doubles"
    using dyadic_in_doubles [of c 24] dyadic_in_doubles [of "c + j" 24] c j by simp_all
  have b: "0 \<le> real_of_int c / 2 ^ 24" "real_of_int (c + j) / 2 ^ 24 \<le> 4"
    using c by simp_all
  have lo: "real_of_int c / 2 ^ 24 \<le> q + real_of_int c / 2 ^ 24" using q by simp
  have hi: "q + real_of_int c / 2 ^ 24 \<le> real_of_int (c + j) / 2 ^ 24"
    using q by (simp add: add_divide_distrib)
  from lo hi b have x: "\<bar>q + real_of_int c / 2 ^ 24\<bar> \<le> 8" by simp
  have "\<bar>real_of_int c / 2 ^ 24\<bar> \<le> 8" "\<bar>real_of_int (c + j) / 2 ^ 24\<bar> \<le> 8"
    using b lo hi by simp_all
  with rd_ge [OF R x lo d(1)] rd_le [OF R x hi d(2)] show ?thesis by simp
qed

lemma segment_bounds:
  assumes R: "rounds_to_nearest rd"
    and d: "\<bar>t - rd p\<bar> \<le> real_of_int k / 1024" and k: "0 \<le> k" "k \<le> 1024"
    and c: "0 \<le> c" "c + 121 * k * k \<le> 16944988"
  shows "0 \<le> rd (rd (rd (121 / 16 * rd (t - rd p)) * rd (t - rd p)) + real_of_int c / 2 ^ 24) \<and>
         rd (rd (rd (121 / 16 * rd (t - rd p)) * rd (t - rd p)) + real_of_int c / 2 ^ 24)
           \<le> 101 / 100"
proof -
  have neg: "real_of_int (- k) / 1024 = - (real_of_int k / 1024)" by simp
  from d have "real_of_int (- k) / 1024 \<le> t - rd p" "t - rd p \<le> real_of_int k / 1024"
    unfolding neg by linarith+
  from rd_bracket [OF R this] k
  have "real_of_int (- k) / 1024 \<le> rd (t - rd p)" "rd (t - rd p) \<le> real_of_int k / 1024"
    by simp_all
  then have "\<bar>rd (t - rd p)\<bar> \<le> real_of_int k / 1024"
    unfolding neg by linarith
  from quad_bounds [OF R this k]
  have q: "0 \<le> rd (rd (121 / 16 * rd (t - rd p)) * rd (t - rd p))"
    "rd (rd (121 / 16 * rd (t - rd p)) * rd (t - rd p)) \<le> real_of_int (121 * k * k) / 2 ^ 24"
    by simp_all
  from c have c': "c + 121 * k * k \<le> 2 ^ 26" by simp
  from offset_bounds [OF R q c(1) c'] c
  have lo: "real_of_int c / 2 ^ 24
              \<le> rd (rd (rd (121 / 16 * rd (t - rd p)) * rd (t - rd p)) + real_of_int c / 2 ^ 24)"
    and hi: "rd (rd (rd (121 / 16 * rd (t - rd p)) * rd (t - rd p)) + real_of_int c / 2 ^ 24)
              \<le> real_of_int (c + 121 * k * k) / 2 ^ 24"
    by simp_all
  have "real_of_int (c + 121 * k * k) \<le> 16944988" using c(2) by linarith
  then have "real_of_int (c + 121 * k * k) / 2 ^ 24 \<le> 101 / 100" by simp
  with hi have "rd (rd (rd (121 / 16 * rd (t - rd p)) * rd (t - rd p)) + real_of_int c / 2 ^ 24)
              \<le> 101 / 100" by linarith
  moreover have "0 \<le> real_of_int c / 2 ^ 24" using c(1) by simp
  with lo
  have "0 \<le> rd (rd (rd (121 / 16 * rd (t - rd p)) * rd (t - rd p)) + real_of_int c / 2 ^ 24)"
    by linarith
  ultimately show ?thesis by simp
qed

lemma bounce_bounds:
  assumes R: "rounds_to_nearest rd"
  shows "0 \<le> ease_out_bounce rd t0 \<and> ease_out_bounce rd t0 \<le> 101 / 100"
proof -
  define t where "t = max 0 (min 1 t0)"
  have t: "0 \<le> t" "t \<le> 1" by (simp_all add: t_def)
  have b1: "372 / 1024 \<le> rd (4 / 11) \<and> rd (4 / 11) \<le> 373 / 1024"
    using rd_bracket [OF R, of 372 "4 / 11" 373] by simp
  have b2: "744 / 1024 \<le> rd (8 / 11) \<and> rd (8 / 11) \<le> 745 / 1024"
    using rd_bracket [OF R, of 744 "8 / 11" 745] by simp
  have b3: "930 / 1024 \<le> rd (10 / 11) \<and> rd (10 / 11) \<le> 931 / 1024"
    using rd_bracket [OF R, of 930 "10 / 11" 931] by simp
  have c2: "558 / 1024 \<le> rd (6 / 11) \<and> rd (6 / 11) \<le> 559 / 1024"
    using rd_bracket [OF R, of 558 "6 / 11" 559] by simp
  have c3: "837 / 1024 \<le> rd (9 / 11) \<and> rd (9 / 11) \<le> 838 / 1024"
    using rd_bracket [OF R, of 837 "9 / 11" 838] by simp
  have c4: "977 / 1024 \<le> rd (21 / 22) \<and> rd (21 / 22) \<le> 978 / 1024"
    using rd_bracket [OF R, of 977 "21 / 22" 978] by simp
  note e = ease_out_bounce_unfold [OF t_def, of rd]
  consider (s1) "t < rd (4 / 11)"
    | (s2) "\<not> t < rd (4 / 11)" "t < rd (8 / 11)"
    | (s3) "\<not> t < rd (4 / 11)" "\<not> t < rd (8 / 11)" "t < rd (10 / 11)"
    | (s4) "\<not> t < rd (4 / 11)" "\<not> t < rd (8 / 11)" "\<not> t < rd (10 / 11)"
    by blast
  then show ?thesis
  proof cases
    case s1
    then have v: "ease_out_bounce rd t0 = rd (rd (121 / 16 * t) * t)"
      unfolding e by simp
    from s1 t b1 have "\<bar>t\<bar> \<le> real_of_int 373 / 1024" by simp
    from quad_bounds [OF R this]
    have "0 \<le> rd (rd (121 / 16 * t) * t)"
      "rd (rd (121 / 16 * t) * t) \<le> real_of_int (121 * 373 * 373) / 2 ^ 24"
      by simp_all
    moreover have "real_of_int (121 * 373 * 373) / 2 ^ 24 \<le> (101 / 100 :: real)" by simp
    ultimately show ?thesis unfolding v by linarith
  next
    case s2
    then have v: "ease_out_bounce rd t0 =
        rd (rd (rd (121 / 16 * rd (t - rd (6 / 11))) * rd (t - rd (6 / 11)))
              + real_of_int 12582912 / 2 ^ 24)"
      unfolding e by simp
    from s2 t b1 b2 c2 have "- (187 / 1024) \<le> t - rd (6 / 11)" "t - rd (6 / 11) \<le> 187 / 1024"
      by linarith+
    then have "\<bar>t - rd (6 / 11)\<bar> \<le> 187 / 1024" by linarith
    then have "\<bar>t - rd (6 / 11)\<bar> \<le> real_of_int 187 / 1024" by simp
    from segment_bounds [OF R this, of 12582912] show ?thesis unfolding v by simp
  next
    case s3
    then have v: "ease_out_bounce rd t0 =
        rd (rd (rd (121 / 16 * rd (t - rd (9 / 11))) * rd (t - rd (9 / 11)))
              + real_of_int 15728640 / 2 ^ 24)"
      unfolding e by simp
    from s3 t b2 b3 c3 have "- (94 / 1024) \<le> t - rd (9 / 11)" "t - rd (9 / 11) \<le> 94 / 1024"
      by linarith+
    then have "\<bar>t - rd (9 / 11)\<bar> \<le> 94 / 1024" by linarith
    then have "\<bar>t - rd (9 / 11)\<bar> \<le> real_of_int 94 / 1024" by simp
    from segment_bounds [OF R this, of 15728640] show ?thesis unfolding v by simp
  next
    case s4
    then have v: "ease_out_bounce rd t0 =
        rd (rd (rd (121 / 16 * rd (t - rd (21 / 22))) * rd (t - rd (21 / 22)))
              + real_of_int 16515072 / 2 ^ 24)"
      unfolding e by simp
    from s4 t b3 c4 have "- (48 / 1024) \<le> t - rd (21 / 22)" "t - rd (21 / 22) \<le> 48 / 1024"
      by linarith+
    then have "\<bar>t - rd (21 / 22)\<bar> \<le> 48 / 1024" by linarith
    then have "\<bar>t - rd (21 / 22)\<bar> \<le> real_of_int 48 / 1024" by simp
    from segment_bounds [OF R this, of 16515072] show ?thesis unfolding v by simp
  qed
qed

lemma bounce_zero:
  assumes R: "rounds_to_nearest rd"
  shows "ease_out_bounce rd 0 = 0"
proof -
  have "372 / 1024 \<le> rd (4 / 11) \<and> rd (4 / 11) \<le> 373 / 1024"
    using rd_bracket [OF R, of 372 "4 / 11" 373] by simp
  then have "0 < rd (4 / 11)" by simp
  moreover have "rd 0 = 0" using rd_fix [OF R zero_in_doubles] by simp
  ultimately show ?thesis
    using ease_out_bounce_unfold [of 0 0 rd] by simp
qed

lemma between_adjacent:
  assumes d: "d \<in> doubles" and k: "2 ^ 52 \<le> k" and n: "n \<le> 1074"
    and lo: "real_of_int k / 2 ^ n \<le> d" and hi: "d \<le> real_of_int (k + 1) / 2 ^ n"
  shows "d = real_of_int k / 2 ^ n \<or> d = real_of_int (k + 1) / 2 ^ n"
proof -
  from d obtain m e where
    md: "d = real_of_int m * 2 ^ e / 2 ^ min_exp" and m: "\<bar>m\<bar> < 2 ^ 53"
    unfolding doubles_def by blast
  from k have kr: "(2 :: real) ^ 52 \<le> real_of_int k"
    by (metis of_int_le_iff of_int_numeral of_int_power)
  have p2: "(0 :: real) < 2 ^ n" by simp
  from lo have dn: "real_of_int k \<le> d * 2 ^ n" by (simp add: field_simps)
  from hi have dn': "d * 2 ^ n \<le> real_of_int (k + 1)" by (simp add: field_simps)
  have dn_eq: "d * 2 ^ n = real_of_int m * 2 ^ (e + n) / 2 ^ min_exp"
    by (simp add: md power_add)
  from m have mr: "real_of_int m < 2 ^ 53"
    by (metis abs_less_iff of_int_less_iff of_int_numeral of_int_power)
  have ge: "min_exp \<le> e + n"
  proof (rule ccontr)
    assume "\<not> min_exp \<le> e + n"
    then have "Suc (e + n) \<le> min_exp" by simp
    then have "(2 :: real) ^ Suc (e + n) \<le> 2 ^ min_exp"
      by (intro power_increasing) simp_all
    then have s: "(2 :: real) ^ (e + n) / 2 ^ min_exp \<le> 1 / 2"
      by (simp add: field_simps)
    have A: "real_of_int m * (2 ^ (e + n) / 2 ^ min_exp) < 2 ^ 53 * (2 ^ (e + n) / 2 ^ min_exp)"
      using mr by (intro mult_strict_right_mono) simp_all
    have B: "(2 :: real) ^ 53 * (2 ^ (e + n) / 2 ^ min_exp) \<le> 2 ^ 53 * (1 / 2)"
      using s by (intro mult_left_mono) simp_all
    from A have "d * 2 ^ n < 2 ^ 53 * (2 ^ (e + n) / 2 ^ min_exp)" by (simp add: dn_eq)
    with B have "d * 2 ^ n < 2 ^ 53 * (1 / 2)" by linarith
    then show False using dn kr by simp
  qed
  define j where "j = m * 2 ^ (e + n - min_exp)"
  from ge have "(2 :: real) ^ (e + n) = 2 ^ (e + n - min_exp) * 2 ^ min_exp"
    by (simp flip: power_add)
  then have "d * 2 ^ n = real_of_int j" by (simp add: dn_eq j_def)
  with dn dn' have "k \<le> j" "j \<le> k + 1" by simp_all
  then have "j = k \<or> j = k + 1" by linarith
  moreover from \<open>d * 2 ^ n = real_of_int j\<close> have "d = real_of_int j / 2 ^ n"
    by (simp add: field_simps)
  ultimately show ?thesis by blast
qed

lemma nearest_cases:
  assumes R: "rounds_to_nearest rd" and x: "\<bar>x\<bar> \<le> 8"
    and k: "2 ^ 52 \<le> k" and n: "n \<le> 1074"
    and lod: "real_of_int k / 2 ^ n \<in> doubles" and hid: "real_of_int (k + 1) / 2 ^ n \<in> doubles"
    and lo: "real_of_int k / 2 ^ n \<le> x" and hi: "x \<le> real_of_int (k + 1) / 2 ^ n"
  shows "(rd x = real_of_int k / 2 ^ n \<or> rd x = real_of_int (k + 1) / 2 ^ n) \<and>
         (x - real_of_int k / 2 ^ n < real_of_int (k + 1) / 2 ^ n - x
            \<longrightarrow> rd x = real_of_int k / 2 ^ n) \<and>
         (real_of_int (k + 1) / 2 ^ n - x < x - real_of_int k / 2 ^ n
            \<longrightarrow> rd x = real_of_int (k + 1) / 2 ^ n)"
proof -
  from R x have rdd: "rd x \<in> doubles"
    and near: "\<And>d. d \<in> doubles \<Longrightarrow> \<bar>x - rd x\<bar> \<le> \<bar>x - d\<bar>"
    unfolding rounds_to_nearest_def by blast+
  from near [OF lod] near [OF hid] lo hi
  have n1: "\<bar>x - rd x\<bar> \<le> x - real_of_int k / 2 ^ n"
    and n2: "\<bar>x - rd x\<bar> \<le> real_of_int (k + 1) / 2 ^ n - x"
    by linarith+
  then have "real_of_int k / 2 ^ n \<le> rd x" "rd x \<le> real_of_int (k + 1) / 2 ^ n"
    by linarith+
  from between_adjacent [OF rdd k n this]
  have c: "rd x = real_of_int k / 2 ^ n \<or> rd x = real_of_int (k + 1) / 2 ^ n" .
  have a: "rd x = real_of_int k / 2 ^ n"
    if "x - real_of_int k / 2 ^ n < real_of_int (k + 1) / 2 ^ n - x"
  proof (rule ccontr)
    assume "rd x \<noteq> real_of_int k / 2 ^ n"
    with c have "rd x = real_of_int (k + 1) / 2 ^ n" by simp
    with n1 have "\<bar>x - real_of_int (k + 1) / 2 ^ n\<bar> \<le> x - real_of_int k / 2 ^ n" by simp
    with that hi show False by linarith
  qed
  have b: "rd x = real_of_int (k + 1) / 2 ^ n"
    if "real_of_int (k + 1) / 2 ^ n - x < x - real_of_int k / 2 ^ n"
  proof (rule ccontr)
    assume "rd x \<noteq> real_of_int (k + 1) / 2 ^ n"
    with c have "rd x = real_of_int k / 2 ^ n" by simp
    with n2 have "\<bar>x - real_of_int k / 2 ^ n\<bar> \<le> real_of_int (k + 1) / 2 ^ n - x" by simp
    with that lo show False by linarith
  qed
  from a b c show ?thesis by blast
qed

lemma bounce_one:
  assumes R: "rounds_to_nearest rd"
  shows "ease_out_bounce rd 1 = 1"
proof -
  have b3: "930 / 1024 \<le> rd (10 / 11) \<and> rd (10 / 11) \<le> 931 / 1024"
    using rd_bracket [OF R, of 930 "10 / 11" 931] by simp
  have b2: "744 / 1024 \<le> rd (8 / 11) \<and> rd (8 / 11) \<le> 745 / 1024"
    using rd_bracket [OF R, of 744 "8 / 11" 745] by simp
  have b1: "372 / 1024 \<le> rd (4 / 11) \<and> rd (4 / 11) \<le> 373 / 1024"
    using rd_bracket [OF R, of 372 "4 / 11" 373] by simp
  from b1 b2 b3 have v: "ease_out_bounce rd 1 =
      rd (rd (rd (121 / 16 * rd (1 - rd (21 / 22))) * rd (1 - rd (21 / 22))) + 63 / 64)"
    using ease_out_bounce_unfold [of 1 1 rd] by simp
  have c: "rd (21 / 22) = 8597781106798220 / 2 ^ 53"
    using nearest_cases [OF R, of "21 / 22" 8597781106798219 53]
      dyadic_in_doubles [of 8597781106798219 53] dyadic_in_doubles [of 8597781106798220 53]
    by simp
  have t: "rd (1 - rd (21 / 22)) = 409418147942772 / 2 ^ 53"
    using rd_fix [OF R dyadic_in_doubles [of 409418147942772 53]] by (simp add: c)
  have a: "rd (121 / 16 * (409418147942772 / 2 ^ 53)) = 6192449487634426 / 2 ^ 54 \<or>
           rd (121 / 16 * (409418147942772 / 2 ^ 53)) = 6192449487634427 / 2 ^ 54"
    using nearest_cases [OF R, of "121 / 16 * (409418147942772 / 2 ^ 53)" 6192449487634426 54]
      dyadic_in_doubles [of 6192449487634426 54] dyadic_in_doubles [of 6192449487634427 54]
    by simp
  have q1: "rd (6192449487634426 / 2 ^ 54 * (409418147942772 / 2 ^ 53))
              = 9007199254740975 / 2 ^ 59"
    using nearest_cases [OF R, of "6192449487634426 / 2 ^ 54 * (409418147942772 / 2 ^ 53)"
        9007199254740975 59]
      dyadic_in_doubles [of 9007199254740975 59] dyadic_in_doubles [of 9007199254740976 59]
    by simp
  have q2: "rd (6192449487634427 / 2 ^ 54 * (409418147942772 / 2 ^ 53))
              = 9007199254740977 / 2 ^ 59"
    using nearest_cases [OF R, of "6192449487634427 / 2 ^ 54 * (409418147942772 / 2 ^ 53)"
        9007199254740976 59]
      dyadic_in_doubles [of 9007199254740976 59] dyadic_in_doubles [of 9007199254740977 59]
    by simp
  have r1: "rd (9007199254740975 / 2 ^ 59 + 63 / 64) = 1"
    using nearest_cases [OF R, of "9007199254740975 / 2 ^ 59 + 63 / 64" 9007199254740991 53]
      dyadic_in_doubles [of 9007199254740991 53] one_in_doubles
    by simp
  have r2: "rd (9007199254740977 / 2 ^ 59 + 63 / 64) = 1"
    using nearest_cases [OF R, of "9007199254740977 / 2 ^ 59 + 63 / 64" 9007199254740991 53]
      dyadic_in_doubles [of 9007199254740991 53] one_in_doubles
    by simp
  from a show ?thesis
  proof
    assume "rd (121 / 16 * (409418147942772 / 2 ^ 53)) = 6192449487634426 / 2 ^ 54"
    then show ?thesis unfolding v t by (simp only: q1 r1)
  next
    assume "rd (121 / 16 * (409418147942772 / 2 ^ 53)) = 6192449487634427 / 2 ^ 54"
    then show ?thesis unfolding v t by (simp only: q2 r2)
  qed
qed

lemma nearest_cube: "libm_cube (\<lambda>x. nearest_double (x ^ 3))"
proof -
  note R = nearest_double_rounds
  have z: "nearest_double (0 ^ 3) = 0"
    using rd_fix [OF R zero_in_doubles] by simp
  have o: "nearest_double (1 ^ 3) = 1"
    using rd_fix [OF R one_in_doubles] by simp
  have m: "nearest_double (x ^ 3) \<le> nearest_double (y ^ 3)"
    if "0 \<le> x \<and> x \<le> y \<and> y \<le> 1" for x y :: real
  proof -
    from that have le: "x ^ 3 \<le> y ^ 3" by (intro power_mono) simp_all
    from that have nn: "0 \<le> x ^ 3" "0 \<le> y ^ 3" by simp_all
    from that have "y ^ 3 \<le> 1 ^ 3" by (intro power_mono) simp_all
    then have y1: "y ^ 3 \<le> 1" by simp
    from le y1 nn have "\<bar>x ^ 3\<bar> \<le> 8" "\<bar>y ^ 3\<bar> \<le> 8" by linarith+
    from rd_mono [OF R this le] show ?thesis .
  qed
  from z o m show ?thesis unfolding libm_cube_def by blast
qed

text \<open>
  C6. With float arithmetic that rounds to a nearest double and a \<open>pow\<close> that is exact
  at 0 and 1 and monotone on the unit interval, the bounce easing returns exactly 0 at 0
  and exactly 1 at 1, its value lies between 0 and 1.01 for every argument in the unit
  interval, and the cubic easing is monotonically non-decreasing there.
\<close>

theorem C6_easing_functions:
  assumes "rounds_to_nearest rd" and "libm_cube cube"
  shows "ease_out_bounce rd 0 = 0 \<and> ease_out_bounce rd 1 = 1 \<and>
         (\<forall>t. 0 \<le> t \<and> t \<le> 1 \<longrightarrow>
            0 \<le> ease_out_bounce rd t \<and> ease_out_bounce rd t \<le> 1.01) \<and>
         (\<forall>t t'. 0 \<le> t \<and> t \<le> t' \<and> t' \<le> 1 \<longrightarrow>
            ease_out_cubic rd cube t \<le> ease_out_cubic rd cube t')"
proof (intro conjI allI impI)
  show "ease_out_bounce rd 0 = 0" using assms(1) by (rule bounce_zero)
  show "ease_out_bounce rd 1 = 1" using assms(1) by (rule bounce_one)
next
  fix t :: real
  from bounce_bounds [OF assms(1), of t]
  show "0 \<le> ease_out_bounce rd t" "ease_out_bounce rd t \<le> 1.01" by simp_all
next
  fix t t' :: real
  assume "0 \<le> t \<and> t \<le> t' \<and> t' \<le> 1"
  then have "t \<le> t'" by simp
  with assms show "ease_out_cubic rd cube t \<le> ease_out_cubic rd cube t'"
    by (rule cubic_mono)
qed

theorem C6_easing_functions_witness:
  "rounds_to_nearest nearest_double \<and> libm_cube (\<lambda>x. nearest_double (x ^ 3)) \<and>
   ease_out_bounce nearest_double 0 = 0 \<and> ease_out_bounce nearest_double 1 = 1 \<and>
   0 \<le> ease_out_bounce nearest_double (1 / 2) \<and>
   ease_out_bounce nearest_double (1 / 2) \<le> 1.01 \<and>
   ease_out_cubic nearest_double (\<lambda>x. nearest_double (x ^ 3)) (1 / 4)
     \<le> ease_out_cubic nearest_double (\<lambda>x. nearest_double (x ^ 3)) (3 / 4)"
proof -
  note c = C6_easing_functions [OF nearest_double_rounds nearest_cube]
  from c have "0 \<le> (1 / 2 :: real) \<and> (1 / 2 :: real) \<le> 1 \<longrightarrow>
      0 \<le> ease_out_bounce nearest_double (1 / 2) \<and>
      ease_out_bounce nearest_double (1 / 2) \<le> 1.01"
    by blast
  then have b: "0 \<le> ease_out_bounce nearest_double (1 / 2)"
    "ease_out_bounce nearest_double (1 / 2) \<le> 1.01"
    by simp_all
  from c have "0 \<le> (1 / 4 :: real) \<and> (1 / 4 :: real) \<le> 3 / 4 \<and> (3 / 4 :: real) \<le> 1 \<longrightarrow>
      ease_out_cubic nearest_double (\<lambda>x. nearest_double (x ^ 3)) (1 / 4)
        \<le> ease_out_cubic nearest_double (\<lambda>x. nearest_double (x ^ 3)) (3 / 4)"
    by blast
  then have m: "ease_out_cubic nearest_double (\<lambda>x. nearest_double (x ^ 3)) (1 / 4)
        \<le> ease_out_cubic nearest_double (\<lambda>x. nearest_double (x ^ 3)) (3 / 4)"
    by simp
  from c b m nearest_double_rounds nearest_cube show ?thesis by blast
qed

end
